theory Spec2Isabelle
  imports Main
begin

section \<open>Python string operations used by app/main.py\<close>

text \<open>
  Python strings are modelled as \<open>string\<close>; a character is a code point below 256, which
  is what an HTTP header carries. \<open>str.split()\<close> without argument cuts at runs of
  whitespace and drops empty pieces; the whitespace characters below 256 are the code
  points 9 to 13, 28 to 32, 133 and 160.
\<close>

definition is_space :: "char \<Rightarrow> bool" where
  "is_space c = (of_char c \<in> {9, 10, 11, 12, 13, 28, 29, 30, 31, 32, 133, 160 :: nat})"

text \<open>\<open>split_acc cur s\<close>: the pieces of \<open>s\<close>, the piece being read so far is \<open>cur\<close>.\<close>

fun split_acc :: "string \<Rightarrow> string \<Rightarrow> string list" where
  "split_acc cur [] = (if cur = [] then [] else [cur])"
| "split_acc cur (c # cs) =
     (if is_space c then (if cur = [] then split_acc [] cs else cur # split_acc [] cs)
      else split_acc (cur @ [c]) cs)"

definition py_split :: "string \<Rightarrow> string list" where
  "py_split s = split_acc [] s"

text \<open>\<open>email.split("@")[0]\<close>: the text before the first \<open>@\<close> (all of it when there is none).\<close>

definition split_at_0 :: "string \<Rightarrow> string" where
  "split_at_0 s = takeWhile (\<lambda>c. c \<noteq> CHR ''@'') s"

text \<open>\<open>f"{count}"\<close> for a count that is never negative: decimal digits, no leading zero.\<close>

definition digit :: "nat \<Rightarrow> char" where
  "digit d = ''0123456789'' ! d"

fun str_nat :: "nat \<Rightarrow> string" where
  "str_nat n = (if n < 10 then [digit n] else str_nat (n div 10) @ [digit (n mod 10)])"

declare str_nat.simps [simp del]

text \<open>Truthiness of an optional string: \<open>None\<close> and \<open>""\<close> are falsy.\<close>

fun truthy :: "string option \<Rightarrow> bool" where
  "truthy None = False"
| "truthy (Some s) = (s \<noteq> [])"


section \<open>Data model (app/models.py, app/schemas.py)\<close>

text \<open>
  A row of the table \<open>users\<close>. Every column but the primary key is nullable unless the
  code always sets it (\<open>is_active\<close> has a default, \<open>created_at\<close> a server default).
  The primary key \<open>id\<close> is never read by the application: a row is identified by its
  position in the table, rows being only appended, never deleted or reordered.
\<close>

record user =
  username :: "string option"
  email :: "string option"
  hashed_password :: "string option"
  uid :: "string option"
  is_active :: bool
  created_at :: nat
  display_name :: "string option"
  state :: "string option"
  language :: "string option"
  photo_url :: "string option"
  bio :: "string option"

text \<open>The request bodies \<open>UserBase\<close> and \<open>UserProfileUpdate\<close>, and the decoded token
  (a dictionary holding at least \<open>uid\<close>; \<open>email\<close>, \<open>name\<close>, \<open>picture\<close> may be missing).\<close>

record UserBase =
  req_username :: string
  req_email :: string
  req_display_name :: "string option"

record UserProfileUpdate =
  upd_display_name :: "string option"
  upd_state :: "string option"
  upd_language :: "string option"
  upd_photo_url :: "string option"
  upd_bio :: "string option"

record decoded_token =
  tok_uid :: string
  tok_email :: "string option"
  tok_name :: "string option"
  tok_picture :: "string option"

text \<open>\<open>firebase_config.verify_token\<close> returns the decoded token, or \<open>None\<close> when the
  provider's check raises. The provider is a parameter of every handler.\<close>

type_synonym verifier = "string \<Rightarrow> decoded_token option"

datatype error = HTTPException nat string | IndexError | IntegrityError


section \<open>The table and its constraints\<close>

type_synonym db = "user list"

text \<open>\<open>query(User).filter(cond).first()\<close>: the first row that satisfies the condition,
  with its position. A comparison of a column with a string never holds for a NULL.\<close>

fun first_from :: "nat \<Rightarrow> (user \<Rightarrow> bool) \<Rightarrow> user list \<Rightarrow> (nat \<times> user) option" where
  "first_from i P [] = None"
| "first_from i P (r # rs) = (if P r then Some (i, r) else first_from (Suc i) P rs)"

definition query_first :: "(user \<Rightarrow> bool) \<Rightarrow> db \<Rightarrow> (nat \<times> user) option" where
  "query_first P rows = first_from 0 P rows"

text \<open>The columns \<open>username\<close>, \<open>email\<close> and \<open>uid\<close> are declared \<open>unique=True\<close>:
  an insert whose non-NULL value of such a column is already in the table is refused at
  commit, and the table stays as it was.\<close>

definition clash :: "(user \<Rightarrow> string option) \<Rightarrow> db \<Rightarrow> user \<Rightarrow> bool" where
  "clash col rows u = (col u \<noteq> None \<and> col u \<in> col ` set rows)"

definition violates_unique :: "db \<Rightarrow> user \<Rightarrow> bool" where
  "violates_unique rows u = (clash username rows u \<or> clash email rows u \<or> clash uid rows u)"

definition add_commit :: "db \<Rightarrow> user \<Rightarrow> error + db" where
  "add_commit rows u = (if violates_unique rows u then Inl IntegrityError else Inr (rows @ [u]))"


section \<open>The username collision loop of \<open>google_login\<close>\<close>

definition username_taken :: "db \<Rightarrow> string \<Rightarrow> bool" where
  "username_taken rows n = (query_first (\<lambda>r. username r = Some n) rows \<noteq> None)"

text \<open>
  \<^verbatim>\<open>while db.query(User).filter(User.username == username).first():
      count += 1
      username = f"{base_username}{count}"\<close>
  The loop state is \<open>(count, username)\<close>; a run that never leaves the loop is \<open>None\<close>.
\<close>

partial_function (option) collision_loop :: "db \<Rightarrow> string \<Rightarrow> nat \<Rightarrow> string \<Rightarrow> (nat \<times> string) option" where
  "collision_loop rows base_username count uname =
     (if username_taken rows uname
      then collision_loop rows base_username (count + 1) (base_username @ str_nat (count + 1))
      else Some (count, uname))"

declare collision_loop.simps [code]


section \<open>The handlers of app/main.py\<close>

text \<open>
  A handler takes the table and returns its result (an error for every \<open>raise\<close>) together
  with the table it leaves behind. \<open>now\<close> is the server's clock at the insert, for the
  column \<open>created_at\<close>.
\<close>

subsection \<open>\<open>get_current_user\<close>\<close>

definition get_current_user :: "verifier \<Rightarrow> string option \<Rightarrow> db \<Rightarrow> (error + nat \<times> user) \<times> db" where
  "get_current_user verify_token authorization rows =
     (case authorization of
        None \<Rightarrow> (Inl (HTTPException 401 ''Authorization header missing''), rows)
      | Some a \<Rightarrow>
          (let parts = py_split a in
           if length parts \<noteq> 2 then (Inl (HTTPException 401 ''Invalid authorization scheme''), rows)
           else if parts ! 0 \<noteq> ''Bearer'' then
             (Inl (HTTPException 401 ''Invalid authorization scheme''), rows)
           else
             (case verify_token (parts ! 1) of
                None \<Rightarrow> (Inl (HTTPException 401 ''Invalid or expired token''), rows)
              | Some decoded \<Rightarrow>
                  (case query_first (\<lambda>r. uid r = Some (tok_uid decoded)) rows of
                     None \<Rightarrow> (Inl (HTTPException 404 ''User not found in database''), rows)
                   | Some found \<Rightarrow> (Inr found, rows)))))"

subsection \<open>\<open>register_user\<close>\<close>

definition register_row :: "nat \<Rightarrow> UserBase \<Rightarrow> string \<Rightarrow> user" where
  "register_row now user_data u =
     \<lparr>username = Some (req_username user_data), email = Some (req_email user_data),
      hashed_password = None, uid = Some u, is_active = True, created_at = now,
      display_name = req_display_name user_data, state = None, language = None,
      photo_url = None, bio = None\<rparr>"

definition register_user ::
    "verifier \<Rightarrow> nat \<Rightarrow> UserBase \<Rightarrow> string option \<Rightarrow> db \<Rightarrow> (error + user) \<times> db" where
  "register_user verify_token now user_data authorization rows =
     (case authorization of
        None \<Rightarrow> (Inl (HTTPException 401 ''No token''), rows)
      | Some a \<Rightarrow>
          if a = [] then (Inl (HTTPException 401 ''No token''), rows)
          else
            (let parts = py_split a in
             if length parts < 2 then (Inl IndexError, rows)
             else
               (case verify_token (parts ! 1) of
                  None \<Rightarrow> (Inl (HTTPException 401 ''Invalid token''), rows)
                | Some decoded \<Rightarrow>
                    if username_taken rows (req_username user_data)
                    then (Inl (HTTPException 400 ''Username already taken''), rows)
                    else
                      (let created = register_row now user_data (tok_uid decoded) in
                       case add_commit rows created of
                         Inl e \<Rightarrow> (Inl e, rows)
                       | Inr rows' \<Rightarrow> (Inr created, rows')))))"

subsection \<open>\<open>google_login\<close>\<close>

record profile =
  p_uid :: "string option"
  p_username :: "string option"
  p_email :: "string option"
  p_created_at :: nat
  p_display_name :: "string option"
  p_photo_url :: "string option"
  p_state :: "string option"
  p_language :: "string option"

record login_response =
  new_user :: bool
  profile :: profile

definition profile_of :: "user \<Rightarrow> profile" where
  "profile_of u =
     \<lparr>p_uid = uid u, p_username = username u, p_email = email u, p_created_at = created_at u,
      p_display_name = display_name u, p_photo_url = photo_url u, p_state = state u,
      p_language = language u\<rparr>"

text \<open>\<open>email.split("@")[0] if email else f"user_{uid[:8]}"\<close>\<close>

definition base_username_of :: "decoded_token \<Rightarrow> string" where
  "base_username_of decoded =
     (case tok_email decoded of
        None \<Rightarrow> ''user_'' @ take 8 (tok_uid decoded)
      | Some e \<Rightarrow> if e = [] then ''user_'' @ take 8 (tok_uid decoded) else split_at_0 e)"

definition login_row :: "nat \<Rightarrow> decoded_token \<Rightarrow> string \<Rightarrow> user" where
  "login_row now decoded uname =
     \<lparr>username = Some uname, email = tok_email decoded, hashed_password = None,
      uid = Some (tok_uid decoded), is_active = True, created_at = now,
      display_name = tok_name decoded, state = None, language = None,
      photo_url = tok_picture decoded, bio = None\<rparr>"

text \<open>The result is \<open>None\<close> when the collision loop does not return.\<close>

definition google_login ::
    "verifier \<Rightarrow> nat \<Rightarrow> string \<Rightarrow> db \<Rightarrow> ((error + login_response) \<times> db) option" where
  "google_login verify_token now id_token rows =
     (case verify_token id_token of
        None \<Rightarrow> Some (Inl (HTTPException 401 ''Invalid Google Token''), rows)
      | Some decoded \<Rightarrow>
          (case query_first (\<lambda>r. uid r = Some (tok_uid decoded)) rows of
             Some found \<Rightarrow> Some (Inr \<lparr>new_user = False, profile = profile_of (snd found)\<rparr>, rows)
           | None \<Rightarrow>
               (let base_username = base_username_of decoded in
                case collision_loop rows base_username 0 base_username of
                  None \<Rightarrow> None
                | Some looped \<Rightarrow>
                    (let created = login_row now decoded (snd looped) in
                     case add_commit rows created of
                       Inl e \<Rightarrow> Some (Inl e, rows)
                     | Inr rows' \<Rightarrow>
                         Some (Inr \<lparr>new_user = True, profile = profile_of created\<rparr>, rows')))))"

subsection \<open>\<open>update_user_profile\<close>\<close>

text \<open>The five guarded assignments, in the order of the source.\<close>

definition apply_update :: "UserProfileUpdate \<Rightarrow> user \<Rightarrow> user" where
  "apply_update profile_data current_user =
     (let u1 = (if truthy (upd_display_name profile_data)
                then current_user\<lparr>display_name := upd_display_name profile_data\<rparr>
                else current_user);
          u2 = (if truthy (upd_state profile_data) then u1\<lparr>state := upd_state profile_data\<rparr> else u1);
          u3 = (if truthy (upd_language profile_data)
                then u2\<lparr>language := upd_language profile_data\<rparr> else u2);
          u4 = (if truthy (upd_photo_url profile_data)
                then u3\<lparr>photo_url := upd_photo_url profile_data\<rparr> else u3);
          u5 = (if truthy (upd_bio profile_data) then u4\<lparr>bio := upd_bio profile_data\<rparr> else u4)
      in u5)"

record updated_profile =
  r_uid :: "string option"
  r_username :: "string option"
  r_email :: "string option"
  r_state :: "string option"
  r_language :: "string option"
  r_photo_url :: "string option"

definition updated_profile_of :: "user \<Rightarrow> updated_profile" where
  "updated_profile_of u =
     \<lparr>r_uid = uid u, r_username = username u, r_email = email u, r_state = state u,
      r_language = language u, r_photo_url = photo_url u\<rparr>"

text \<open>The commit writes the changed columns of the row that \<open>get_current_user\<close> loaded;
  none of them carries a constraint, so it cannot be refused.\<close>

definition update_user_profile ::
    "verifier \<Rightarrow> UserProfileUpdate \<Rightarrow> string option \<Rightarrow> db \<Rightarrow> (error + updated_profile) \<times> db" where
  "update_user_profile verify_token profile_data authorization rows =
     (case fst (get_current_user verify_token authorization rows) of
        Inl e \<Rightarrow> (Inl e, rows)
      | Inr found \<Rightarrow>
          (let changed = apply_update profile_data (snd found) in
           (Inr (updated_profile_of changed), rows[fst found := changed])))"

subsection \<open>Sequences of requests\<close>

datatype request =
    Register nat UserBase "string option"
  | GoogleLogin nat string
  | UpdateProfile UserProfileUpdate "string option"

fun handle :: "verifier \<Rightarrow> request \<Rightarrow> db \<Rightarrow> db option" where
  "handle v (Register now user_data authorization) rows =
     Some (snd (register_user v now user_data authorization rows))"
| "handle v (GoogleLogin now id_token) rows = map_option snd (google_login v now id_token rows)"
| "handle v (UpdateProfile profile_data authorization) rows =
     Some (snd (update_user_profile v profile_data authorization rows))"

fun run :: "verifier \<Rightarrow> request list \<Rightarrow> db \<Rightarrow> db option" where
  "run v [] rows = Some rows"
| "run v (q # qs) rows = (case handle v q rows of None \<Rightarrow> None | Some rows' \<Rightarrow> run v qs rows')"


section \<open>Two \<open>google_login\<close> requests at the same time\<close>

text \<open>
  Each request runs in its own session; what the two share is the table. A request
  advances by one database statement at a time, and the statements of two requests
  may interleave in any order. The places between the statements of \<open>google_login\<close>:
  before the lookup by \<open>uid\<close>; before a test of the collision loop, with the loop's
  variables; before \<open>db.add\<close> and \<open>db.commit\<close>, with the username found; and after the
  \<open>return\<close> or \<open>raise\<close>.
\<close>

datatype login_pc =
    Start
  | Looping decoded_token string nat string
  | Inserting decoded_token string
  | Done "error + login_response"

text \<open>A call: the provider, the clock at its insert, and the token of the request.\<close>

type_synonym call = "verifier \<times> nat \<times> string"

fun login_step :: "call \<Rightarrow> login_pc \<Rightarrow> db \<Rightarrow> login_pc \<times> db" where
  "login_step (verify_token, now, id_token) Start rows =
     (case verify_token id_token of
        None \<Rightarrow> (Done (Inl (HTTPException 401 ''Invalid Google Token'')), rows)
      | Some decoded \<Rightarrow>
          (case query_first (\<lambda>r. uid r = Some (tok_uid decoded)) rows of
             Some found \<Rightarrow> (Done (Inr \<lparr>new_user = False, profile = profile_of (snd found)\<rparr>), rows)
           | None \<Rightarrow>
               (Looping decoded (base_username_of decoded) 0 (base_username_of decoded), rows)))"
| "login_step (verify_token, now, id_token) (Looping decoded base_username count uname) rows =
     (if username_taken rows uname
      then (Looping decoded base_username (count + 1) (base_username @ str_nat (count + 1)), rows)
      else (Inserting decoded uname, rows))"
| "login_step (verify_token, now, id_token) (Inserting decoded uname) rows =
     (let created = login_row now decoded uname in
      case add_commit rows created of
        Inl e \<Rightarrow> (Done (Inl e), rows)
      | Inr rows' \<Rightarrow> (Done (Inr \<lparr>new_user = True, profile = profile_of created\<rparr>), rows'))"
| "login_step (verify_token, now, id_token) (Done r) rows = (Done r, rows)"

text \<open>One request alone, for a number of statements.\<close>

fun run1 :: "call \<Rightarrow> nat \<Rightarrow> login_pc \<times> db \<Rightarrow> login_pc \<times> db" where
  "run1 c 0 s = s"
| "run1 c (Suc n) s = run1 c n (login_step c (fst s) (snd s))"

text \<open>Two requests under a schedule: \<open>True\<close> lets the first request make its next
  statement, \<open>False\<close> the second.\<close>

fun run2 :: "call \<Rightarrow> call \<Rightarrow> bool list \<Rightarrow> login_pc \<times> login_pc \<times> db \<Rightarrow> login_pc \<times> login_pc \<times> db" where
  "run2 ca cb [] s = s"
| "run2 ca cb (True # sch) (pa, pb, rows) =
     run2 ca cb sch (fst (login_step ca pa rows), pb, snd (login_step ca pa rows))"
| "run2 ca cb (False # sch) (pa, pb, rows) =
     run2 ca cb sch (pa, fst (login_step cb pb rows), snd (login_step cb pb rows))"


section \<open>Notions used to state the properties\<close>

text \<open>The names the collision loop examines, in order: the base itself, then the base
  followed by 1, 2, 3, ...\<close>

definition candidate :: "string \<Rightarrow> nat \<Rightarrow> string" where
  "candidate base k = (if k = 0 then base else base @ str_nat k)"

text \<open>The values a column holds (a NULL is no value), and uniqueness of a column: no two
  rows hold the same value.\<close>

definition values_of :: "(user \<Rightarrow> string option) \<Rightarrow> db \<Rightarrow> string list" where
  "values_of col rows = map the (filter (\<lambda>x. x \<noteq> None) (map col rows))"

definition unique_col :: "(user \<Rightarrow> string option) \<Rightarrow> db \<Rightarrow> bool" where
  "unique_col col rows = distinct (values_of col rows)"

definition store_ok :: "db \<Rightarrow> bool" where
  "store_ok rows = (unique_col username rows \<and> unique_col email rows)"

text \<open>Every row of the first table is still there, at its place, with the same \<open>uid\<close>.\<close>

definition keeps_uids :: "db \<Rightarrow> db \<Rightarrow> bool" where
  "keeps_uids rows rows' =
     (length rows \<le> length rows' \<and> (\<forall>i<length rows. uid (rows' ! i) = uid (rows ! i)))"

text \<open>A handler's result is an HTTP error of the given status.\<close>

fun is_status :: "nat \<Rightarrow> error + 'a \<Rightarrow> bool" where
  "is_status c (Inl (HTTPException c' d)) = (c' = c)"
| "is_status c (Inl IndexError) = False"
| "is_status c (Inl IntegrityError) = False"
| "is_status c (Inr x) = False"

text \<open>The token of a header that \<open>get_current_user\<close> accepts: two pieces, the first one
  \<open>Bearer\<close>.\<close>

definition bearer_token :: "string \<Rightarrow> string option" where
  "bearer_token a =
     (case py_split a of
        [scheme, t] \<Rightarrow> if scheme = ''Bearer'' then Some t else None
      | _ \<Rightarrow> None)"


section \<open>A sample provider and a sample table\<close>

definition ex_verify :: verifier where
  "ex_verify t =
     (if t = ''tok-alice'' then
        Some \<lparr>tok_uid = ''uid-alice'', tok_email = Some ''alice@example.com'',
              tok_name = Some ''Alice'', tok_picture = None\<rparr>
      else if t = ''tok-al2'' then
        Some \<lparr>tok_uid = ''uid-al2'', tok_email = Some ''alice@other.org'',
              tok_name = None, tok_picture = Some ''http://p/al2.png''\<rparr>
      else if t = ''tok-anon'' then
        Some \<lparr>tok_uid = ''0123456789abcdef'', tok_email = None,
              tok_name = None, tok_picture = None\<rparr>
      else if t = ''tok-dup'' then
        Some \<lparr>tok_uid = ''uid-dup'', tok_email = Some ''alice@example.com'',
              tok_name = None, tok_picture = None\<rparr>
      else if t = ''tok-dup2'' then
        Some \<lparr>tok_uid = ''uid-dup2'', tok_email = Some ''a1@example.com'',
              tok_name = Some ''Al'', tok_picture = None\<rparr>
      else if t = ''tok-empty'' then
        Some \<lparr>tok_uid = ''fedcba9876543210'', tok_email = Some [],
              tok_name = None, tok_picture = None\<rparr>
      else None)"

definition ex_row :: "string \<Rightarrow> string \<Rightarrow> string \<Rightarrow> user" where
  "ex_row n e u =
     \<lparr>username = Some n, email = Some e, hashed_password = None, uid = Some u,
      is_active = True, created_at = 0, display_name = None, state = None, language = None,
      photo_url = None, bio = None\<rparr>"

definition ex_rows :: db where
  "ex_rows =
     [(ex_row ''alice'' ''alice@example.com'' ''uid-alice'')\<lparr>display_name := Some ''Alice A.''\<rparr>,
      ex_row ''alice1'' ''a1@example.com'' ''uid-a1'']"

definition ex_carol :: UserBase where
  "ex_carol =
     \<lparr>req_username = ''carol'', req_email = ''carol@example.com'', req_display_name = None\<rparr>"

definition ex_update :: UserProfileUpdate where
  "ex_update =
     \<lparr>upd_display_name = Some [], upd_state = None, upd_language = None,
      upd_photo_url = None, upd_bio = Some ''new bio''\<rparr>"

definition ex_requests :: "request list" where
  "ex_requests =
     [GoogleLogin 7 ''tok-al2'',
      Register 8 ex_carol (Some ''Bearer tok-anon''),
      UpdateProfile ex_update (Some ''Bearer tok-alice'')]"

definition ex_dave :: UserBase where
  "ex_dave =
     \<lparr>req_username = ''dave'', req_email = ''alice@example.com'', req_display_name = None\<rparr>"

text \<open>What holds of a request's place while two requests with the claims \<open>d\<close> run on a
  table that was \<open>rows0\<close> when they started.\<close>

fun pc_ok :: "db \<Rightarrow> decoded_token \<Rightarrow> db \<Rightarrow> login_pc \<Rightarrow> bool" where
  "pc_ok rows0 d rows Start = True"
| "pc_ok rows0 d rows (Looping d' b c n) = (d' = d)"
| "pc_ok rows0 d rows (Inserting d' n) =
     (d' = d \<and> (rows = rows0 \<longrightarrow> Some n \<notin> username ` set rows0))"
| "pc_ok rows0 d rows (Done r) =
     (rows \<noteq> rows0 \<and> (case r of Inl e \<Rightarrow> True | Inr x \<Rightarrow> profile x = profile_of (last rows)))"

definition race_ok :: "db \<Rightarrow> decoded_token \<Rightarrow> login_pc \<times> login_pc \<times> db \<Rightarrow> bool" where
  "race_ok rows0 d s =
     ((snd (snd s) = rows0 \<or> (\<exists>u. snd (snd s) = rows0 @ [u] \<and> uid u = Some (tok_uid d))) \<and>
      pc_ok rows0 d (snd (snd s)) (fst s) \<and> pc_ok rows0 d (snd (snd s)) (fst (snd s)))"

text \<open>What holds of the variables of a request inside the collision loop, and a bound
  on the statements a request still has to make, on a table that had \<open>L\<close> rows when
  the two requests started.\<close>

fun pc_left :: "nat \<Rightarrow> login_pc \<Rightarrow> nat" where
  "pc_left L Start = L + 4"
| "pc_left L (Looping d b c n) = L + 3 - c"
| "pc_left L (Inserting d n) = 1"
| "pc_left L (Done r) = 0"

fun loop_ok :: "db \<Rightarrow> login_pc \<Rightarrow> bool" where
  "loop_ok rows (Looping d b c n) =
     (n = candidate b c \<and> (\<forall>j<c. Some (candidate b j) \<in> username ` set rows))"
| "loop_ok rows p = True"

definition race_inv :: "db \<Rightarrow> decoded_token \<Rightarrow> login_pc \<times> login_pc \<times> db \<Rightarrow> bool" where
  "race_inv rows0 d s =
     (race_ok rows0 d s \<and> loop_ok (snd (snd s)) (fst s) \<and> loop_ok (snd (snd s)) (fst (snd s)))"

text \<open>A schedule in which the second request looks the user up before the first one
  inserts, and inserts after it; its last step finds the first request already ended.\<close>

definition ex_schedule :: "bool list" where
  "ex_schedule =
     [False, True, True, True, True, True, False, False, False, False, False, True]"

text \<open>The three columns declared unique.\<close>

definition cols_ok :: "db \<Rightarrow> bool" where
  "cols_ok rows = (unique_col username rows \<and> unique_col email rows \<and> unique_col uid rows)"

text \<open>The rows of a subject.\<close>

definition rows_of_uid :: "string \<Rightarrow> db \<Rightarrow> user list" where
  "rows_of_uid x rows = filter (\<lambda>r. uid r = Some x) rows"


section \<open>Auxiliary facts\<close>

subsection \<open>Decimal numerals are injective\<close>

lemma digit_inj: "d < 10 \<Longrightarrow> e < 10 \<Longrightarrow> digit d = digit e \<Longrightarrow> d = e"
proof -
  assume a: "d < 10" "e < 10" "digit d = digit e"
  have dist: "distinct ''0123456789''" by simp
  have len: "length ''0123456789'' = 10" by simp
  from a show "d = e" unfolding digit_def
    using nth_eq_iff_index_eq [OF dist, of d e] len by simp
qed

lemma str_nat_nonempty: "str_nat n \<noteq> []"
  by (subst str_nat.simps) simp

lemma str_nat_length_ge2: "10 \<le> n \<Longrightarrow> 2 \<le> length (str_nat n)"
  using str_nat_nonempty [of "n div 10"]
  by (subst str_nat.simps) (cases "str_nat (n div 10)"; simp)

lemma str_nat_inj: "str_nat n = str_nat m \<Longrightarrow> n = m"
proof (induction n arbitrary: m rule: str_nat.induct)
  case (1 n)
  show ?case
  proof (cases "n < 10")
    case small: True
    show ?thesis
    proof (cases "m < 10")
      case True
      with small "1.prems" show ?thesis
        by (simp add: str_nat.simps [of n] str_nat.simps [of m] digit_inj)
    next
      case False
      then have "2 \<le> length (str_nat m)" by (simp add: str_nat_length_ge2)
      moreover have "length (str_nat n) = 1" using small by (simp add: str_nat.simps [of n])
      ultimately show ?thesis using "1.prems" by simp
    qed
  next
    case big: False
    show ?thesis
    proof (cases "m < 10")
      case True
      then have "length (str_nat m) = 1" by (simp add: str_nat.simps [of m])
      moreover have "2 \<le> length (str_nat n)" using big by (simp add: str_nat_length_ge2)
      ultimately show ?thesis using "1.prems" by simp
    next
      case False
      from big False "1.prems"
      have eq: "str_nat (n div 10) @ [digit (n mod 10)] = str_nat (m div 10) @ [digit (m mod 10)]"
        by (simp add: str_nat.simps [of n] str_nat.simps [of m])
      then have "str_nat (n div 10) = str_nat (m div 10)" and d: "digit (n mod 10) = digit (m mod 10)"
        by simp_all
      then have "n div 10 = m div 10" using "1.IH" big by simp
      moreover have "n mod 10 = m mod 10" using d by (simp add: digit_inj)
      ultimately show ?thesis by (metis div_mult_mod_eq)
    qed
  qed
qed

lemma candidate_inj: "candidate base j = candidate base k \<Longrightarrow> j = k"
  by (auto simp: candidate_def str_nat_nonempty dest: str_nat_inj split: if_splits)

subsection \<open>Queries and the collision loop\<close>

lemma first_from_None: "first_from i P rs = None \<longleftrightarrow> (\<forall>r\<in>set rs. \<not> P r)"
  by (induction rs arbitrary: i) auto

lemma first_from_Some:
  "first_from i P rs = Some (j, r) \<Longrightarrow>
     i \<le> j \<and> j < i + length rs \<and> rs ! (j - i) = r \<and> P r \<and> (\<forall>k<j - i. \<not> P (rs ! k))"
proof (induction rs arbitrary: i)
  case Nil
  then show ?case by simp
next
  case (Cons a rs)
  show ?case
  proof (cases "P a")
    case True
    with Cons.prems show ?thesis by simp
  next
    case False
    with Cons.prems have "first_from (Suc i) P rs = Some (j, r)" by simp
    from Cons.IH [OF this]
    have ih: "Suc i \<le> j" "j < Suc i + length rs" "rs ! (j - Suc i) = r" "P r"
      "\<forall>k<j - Suc i. \<not> P (rs ! k)" by simp_all
    from ih(1) have ji: "j - i = Suc (j - Suc i)" by arith
    have "\<not> P ((a # rs) ! k)" if "k < j - i" for k
      using that False ih(5) ji by (cases k) auto
    with ih ji show ?thesis by simp
  qed
qed

lemma query_first_None: "query_first P rows = None \<longleftrightarrow> (\<forall>r\<in>set rows. \<not> P r)"
  by (simp add: query_first_def first_from_None)

lemma query_first_Some:
  "query_first P rows = Some (j, r) \<Longrightarrow>
     j < length rows \<and> rows ! j = r \<and> P r \<and> (\<forall>k<j. \<not> P (rows ! k))"
  using first_from_Some [of 0 P rows j r] by (simp add: query_first_def)

lemma username_taken_iff: "username_taken rows n \<longleftrightarrow> Some n \<in> username ` set rows"
  unfolding username_taken_def query_first_None by force

lemma candidate_Suc: "candidate base (Suc c) = base @ str_nat (Suc c)"
  by (simp add: candidate_def)

lemma loop_run:
  "\<not> username_taken rows (candidate base K) \<Longrightarrow>
   \<forall>j. c \<le> j \<and> j < K \<longrightarrow> username_taken rows (candidate base j) \<Longrightarrow> c \<le> K \<Longrightarrow>
   collision_loop rows base c (candidate base c) = Some (K, candidate base K)"
proof (induction "K - c" arbitrary: c)
  case 0
  then have "c = K" by simp
  with "0.prems"(1) show ?case by (subst collision_loop.simps) simp
next
  case (Suc d)
  then have lt: "c < K" by simp
  with Suc.prems(2) have taken: "username_taken rows (candidate base c)" by simp
  have "collision_loop rows base (Suc c) (candidate base (Suc c)) = Some (K, candidate base K)"
    using Suc.hyps(2) Suc.prems lt by (intro Suc.hyps(1)) auto
  with taken show ?case
    by (subst collision_loop.simps) (simp add: candidate_Suc)
qed

lemma free_candidate_exists: "\<exists>k\<le>length rows. \<not> username_taken rows (candidate base k)"
proof (rule ccontr)
  assume "\<not> ?thesis"
  then have all: "\<forall>k\<le>length rows. Some (candidate base k) \<in> username ` set rows"
    by (simp add: username_taken_iff)
  let ?f = "\<lambda>k. Some (candidate base k)"
  have sub: "?f ` {..length rows} \<subseteq> username ` set rows" using all by auto
  have "inj_on ?f {..length rows}" by (auto simp: inj_on_def dest: candidate_inj)
  then have "card (?f ` {..length rows}) = Suc (length rows)" by (simp add: card_image)
  moreover have "card (?f ` {..length rows}) \<le> card (username ` set rows)"
    using sub by (intro card_mono) auto
  moreover have "card (username ` set rows) \<le> length rows"
    by (meson card_image_le card_length le_trans List.finite_set)
  ultimately show False by simp
qed

lemma loop_result:
  "\<exists>k\<le>length rows. collision_loop rows base 0 base = Some (k, candidate base k) \<and>
      \<not> username_taken rows (candidate base k) \<and> (\<forall>j<k. username_taken rows (candidate base j))"
proof -
  let ?free = "\<lambda>k. \<not> username_taken rows (candidate base k)"
  obtain k0 where k0: "k0 \<le> length rows" "?free k0" using free_candidate_exists by blast
  define K where "K = (LEAST k. ?free k)"
  have free: "?free K" unfolding K_def using k0(2) by (rule LeastI)
  have le: "K \<le> length rows" unfolding K_def using k0 by (meson Least_le le_trans)
  have below: "\<forall>j<K. username_taken rows (candidate base j)"
    unfolding K_def using not_less_Least by blast
  have "collision_loop rows base 0 (candidate base 0) = Some (K, candidate base K)"
    using free below by (intro loop_run) auto
  then have "collision_loop rows base 0 base = Some (K, candidate base K)"
    by (simp add: candidate_def)
  with free le below show ?thesis by blast
qed

subsection \<open>Unique columns under insert and update\<close>

lemma set_values_of: "set (values_of col rows) = {x. Some x \<in> col ` set rows}"
proof (induction rows)
  case Nil
  show ?case by (simp add: values_of_def)
next
  case (Cons r rs)
  then have ih: "set (map the (filter (\<lambda>x. x \<noteq> None) (map col rs))) = {x. Some x \<in> col ` set rs}"
    by (simp add: values_of_def)
  show ?case
  proof (cases "col r")
    case None
    then show ?thesis using ih by (auto simp: values_of_def)
  next
    case (Some y)
    then show ?thesis using ih by (auto simp: values_of_def)
  qed
qed

lemma values_of_append:
  "values_of col (rows @ [u]) = values_of col rows @ (case col u of None \<Rightarrow> [] | Some x \<Rightarrow> [x])"
  by (simp add: values_of_def split: option.splits)

lemma unique_col_append:
  "unique_col col rows \<Longrightarrow> \<not> clash col rows u \<Longrightarrow> unique_col col (rows @ [u])"
  by (auto simp: unique_col_def values_of_append set_values_of clash_def split: option.splits)

lemma values_of_update:
  "col u = col (rows ! i) \<Longrightarrow> values_of col (rows[i := u]) = values_of col rows"
proof -
  assume a: "col u = col (rows ! i)"
  have "map col (rows[i := u]) = map col rows"
  proof (cases "i < length rows")
    case True
    then have "(map col rows)[i := col u] = (map col rows)[i := map col rows ! i]"
      using a by simp
    then show ?thesis by (simp add: map_update)
  next
    case False
    then have "length rows \<le> i" by simp
    then show ?thesis by (simp add: list_update_beyond)
  qed
  then show ?thesis by (simp add: values_of_def)
qed

lemma add_commit_cases:
  "add_commit rows u = Inl IntegrityError \<and> violates_unique rows u \<or>
   add_commit rows u = Inr (rows @ [u]) \<and> \<not> violates_unique rows u"
  by (simp add: add_commit_def)

lemma add_commit_unique:
  "add_commit rows u = Inr rows' \<Longrightarrow> unique_col username rows \<Longrightarrow> unique_col email rows \<Longrightarrow>
     rows' = rows @ [u] \<and> unique_col username rows' \<and> unique_col email rows'"
  by (auto simp: add_commit_def violates_unique_def unique_col_append split: if_splits)

lemma keeps_uids_refl: "keeps_uids rows rows"
  by (simp add: keeps_uids_def)

lemma keeps_uids_append: "keeps_uids rows (rows @ [u])"
  by (simp add: keeps_uids_def nth_append)

lemma keeps_uids_trans: "keeps_uids a b \<Longrightarrow> keeps_uids b c \<Longrightarrow> keeps_uids a c"
  by (auto simp: keeps_uids_def)

lemma apply_update_keys:
  "username (apply_update p u) = username u" "email (apply_update p u) = email u"
  "uid (apply_update p u) = uid u" "hashed_password (apply_update p u) = hashed_password u"
  "is_active (apply_update p u) = is_active u" "created_at (apply_update p u) = created_at u"
  by (simp_all add: apply_update_def Let_def)

lemma apply_update_fields:
  "display_name (apply_update p u) = (if truthy (upd_display_name p) then upd_display_name p else display_name u)"
  "state (apply_update p u) = (if truthy (upd_state p) then upd_state p else state u)"
  "language (apply_update p u) = (if truthy (upd_language p) then upd_language p else language u)"
  "photo_url (apply_update p u) = (if truthy (upd_photo_url p) then upd_photo_url p else photo_url u)"
  "bio (apply_update p u) = (if truthy (upd_bio p) then upd_bio p else bio u)"
  by (simp_all add: apply_update_def Let_def)

lemma get_current_user_db: "snd (get_current_user v h rows) = rows"
  by (simp add: get_current_user_def Let_def split: option.splits)

lemma get_current_user_found:
  "get_current_user v h rows = (Inr (i, u), rows') \<Longrightarrow> i < length rows \<and> rows ! i = u"
  by (auto simp: get_current_user_def Let_def split: option.splits if_splits dest: query_first_Some)

lemma register_user_db:
  "snd (register_user v now ud h rows) = rows \<or>
   (\<exists>u. snd (register_user v now ud h rows) = rows @ [u] \<and> add_commit rows u = Inr (rows @ [u]))"
  using add_commit_cases
  by (auto simp: register_user_def Let_def add_commit_def split: option.splits)

lemma register_user_step:
  assumes "store_ok rows"
  shows "store_ok (snd (register_user v now ud h rows)) \<and> keeps_uids rows (snd (register_user v now ud h rows))"
  using register_user_db [of v now ud h rows]
proof
  assume "snd (register_user v now ud h rows) = rows"
  then show ?thesis using assms by (simp add: keeps_uids_refl)
next
  assume "\<exists>u. snd (register_user v now ud h rows) = rows @ [u] \<and> add_commit rows u = Inr (rows @ [u])"
  then obtain u where u: "snd (register_user v now ud h rows) = rows @ [u]"
    "add_commit rows u = Inr (rows @ [u])" by blast
  from add_commit_unique [OF u(2)] assms have "store_ok (rows @ [u])" by (simp add: store_ok_def)
  then show ?thesis using u(1) by (simp add: keeps_uids_append)
qed

lemma update_user_profile_step:
  assumes "store_ok rows"
  shows "store_ok (snd (update_user_profile v p h rows)) \<and> keeps_uids rows (snd (update_user_profile v p h rows))"
proof (cases "fst (get_current_user v h rows)")
  case (Inl e)
  then show ?thesis using assms by (simp add: update_user_profile_def keeps_uids_refl)
next
  case (Inr found)
  obtain i u where f: "found = (i, u)" by (cases found)
  have "get_current_user v h rows = (Inr (i, u), rows)"
    using Inr f get_current_user_db [of v h rows] by (simp add: prod_eq_iff)
  then have iu: "i < length rows" "rows ! i = u" using get_current_user_found by blast+
  have s: "snd (update_user_profile v p h rows) = rows[i := apply_update p u]"
    using Inr f by (simp add: update_user_profile_def Let_def)
  have "store_ok (rows[i := apply_update p u])" using assms
    by (simp add: store_ok_def unique_col_def values_of_update apply_update_keys iu)
  moreover have "keeps_uids rows (rows[i := apply_update p u])"
    using iu by (auto simp: keeps_uids_def nth_list_update apply_update_keys)
  ultimately show ?thesis by (simp add: s)
qed

lemma google_login_step:
  assumes i: "store_ok rows"
  shows "\<exists>res rows'. google_login v now t rows = Some (res, rows') \<and> store_ok rows' \<and> keeps_uids rows rows'"
proof -
  show ?thesis
  proof (cases "v t")
    case None
    then show ?thesis using i by (simp add: google_login_def keeps_uids_refl)
  next
    case (Some d)
    show ?thesis
    proof (cases "query_first (\<lambda>r. uid r = Some (tok_uid d)) rows")
      case found: (Some f)
      with Some show ?thesis using i by (simp add: google_login_def keeps_uids_refl)
    next
      case None
      obtain k where k: "collision_loop rows (base_username_of d) 0 (base_username_of d)
          = Some (k, candidate (base_username_of d) k)"
        using loop_result [of rows "base_username_of d"] by blast
      let ?u = "login_row now d (candidate (base_username_of d) k)"
      from add_commit_cases [of rows ?u] show ?thesis
      proof
        assume "add_commit rows ?u = Inl IntegrityError \<and> violates_unique rows ?u"
        then show ?thesis using Some None k i
          by (simp add: google_login_def Let_def keeps_uids_refl)
      next
        assume a: "add_commit rows ?u = Inr (rows @ [?u]) \<and> \<not> violates_unique rows ?u"
        then have "store_ok (rows @ [?u])" using i add_commit_unique [of rows ?u "rows @ [?u]"]
          by (simp add: store_ok_def)
        then show ?thesis using Some None k a
          by (simp add: google_login_def Let_def keeps_uids_append)
      qed
    qed
  qed
qed

lemma handle_step:
  assumes "store_ok rows"
  shows "\<exists>rows'. handle v q rows = Some rows' \<and> store_ok rows' \<and> keeps_uids rows rows'"
proof (cases q)
  case (Register now ud h)
  then show ?thesis using register_user_step [OF assms, of v now ud h] by simp
next
  case (GoogleLogin now t)
  from google_login_step [OF assms, of v now t] show ?thesis using GoogleLogin by auto
next
  case (UpdateProfile p h)
  then show ?thesis using update_user_profile_step [OF assms, of v p h] by simp
qed

lemma run_store_ok:
  "store_ok rows \<Longrightarrow> \<exists>rows'. run v qs rows = Some rows' \<and> store_ok rows' \<and> keeps_uids rows rows'"
proof (induction qs arbitrary: rows)
  case Nil
  then show ?case by (simp add: keeps_uids_refl)
next
  case (Cons q qs)
  from handle_step [OF Cons.prems, of v q] obtain r1 where
    r1: "handle v q rows = Some r1" "store_ok r1" "keeps_uids rows r1" by blast
  from Cons.IH [OF r1(2)] obtain r2 where
    r2: "run v qs r1 = Some r2" "store_ok r2" "keeps_uids r1 r2" by blast
  from r1 r2 show ?case by (auto intro: keeps_uids_trans)
qed


subsection \<open>Splitting a header at whitespace\<close>

lemma split_acc_no_space:
  "\<forall>c\<in>set s. \<not> is_space c \<Longrightarrow> split_acc cur s = (if cur @ s = [] then [] else [cur @ s])"
  by (induction s arbitrary: cur) simp_all

lemma py_split_bare: "a \<noteq> [] \<Longrightarrow> \<forall>c\<in>set a. \<not> is_space c \<Longrightarrow> py_split a = [a]"
  by (simp add: py_split_def split_acc_no_space)

lemma split_acc_word:
  "\<forall>c\<in>set w. \<not> is_space c \<Longrightarrow> is_space x \<Longrightarrow> cur @ w \<noteq> [] \<Longrightarrow>
     split_acc cur (w @ x # s) = (cur @ w) # split_acc [] s"
  by (induction w arbitrary: cur) simp_all

lemma py_split_bearer:
  assumes "t \<noteq> []" and "\<forall>c\<in>set t. \<not> is_space c"
  shows "py_split (''Bearer '' @ t) = [''Bearer'', t]"
proof -
  have sp: "is_space CHR '' ''" by (simp add: is_space_def)
  have w: "\<forall>c\<in>set ''Bearer''. \<not> is_space c" by (simp add: is_space_def)
  have "split_acc [] (''Bearer'' @ CHR '' '' # t) = ([] @ ''Bearer'') # split_acc [] t"
    using w sp by (intro split_acc_word) simp_all
  then show ?thesis using assms by (simp add: py_split_def split_acc_no_space)
qed

lemma bearer_token_literal:
  "t \<noteq> [] \<Longrightarrow> \<forall>c\<in>set t. \<not> is_space c \<Longrightarrow> bearer_token (''Bearer '' @ t) = Some t"
  using py_split_bearer [of t] by (simp add: bearer_token_def)

lemma bearer_token_None_iff:
  "bearer_token a = None \<longleftrightarrow> length (py_split a) \<noteq> 2 \<or> py_split a ! 0 \<noteq> ''Bearer''"
  by (auto simp: bearer_token_def split: list.splits)

lemma bearer_token_Some:
  "bearer_token a = Some t \<Longrightarrow> py_split a = [''Bearer'', t]"
  by (auto simp: bearer_token_def split: list.splits if_splits)

subsection \<open>\<open>google_login\<close> always returns\<close>

lemma google_login_returns: "google_login v now t rows \<noteq> None"
  using loop_result [of rows "base_username_of (the (v t))"]
  by (auto simp: google_login_def Let_def split: option.splits sum.splits)


subsection \<open>Looking a user up by \<open>uid\<close>\<close>

lemma query_first_uid_in:
  "Some x \<in> uid ` set rows \<Longrightarrow>
     \<exists>i<length rows. query_first (\<lambda>r. uid r = Some x) rows = Some (i, rows ! i) \<and> uid (rows ! i) = Some x"
proof -
  assume "Some x \<in> uid ` set rows"
  then have "query_first (\<lambda>r. uid r = Some x) rows \<noteq> None"
    unfolding query_first_None by force
  then obtain i r where f: "query_first (\<lambda>r. uid r = Some x) rows = Some (i, r)" by auto
  from query_first_Some [OF f] f show ?thesis by auto
qed

lemma query_first_uid_out:
  "Some x \<notin> uid ` set rows \<Longrightarrow> query_first (\<lambda>r. uid r = Some x) rows = None"
  unfolding query_first_None by force

lemma get_current_user_bearer:
  "bearer_token a = Some t \<Longrightarrow>
     get_current_user v (Some a) rows =
       (case v t of
          None \<Rightarrow> (Inl (HTTPException 401 ''Invalid or expired token''), rows)
        | Some d \<Rightarrow>
            (case query_first (\<lambda>r. uid r = Some (tok_uid d)) rows of
               None \<Rightarrow> (Inl (HTTPException 404 ''User not found in database''), rows)
             | Some found \<Rightarrow> (Inr found, rows)))"
  by (drule bearer_token_Some) (simp add: get_current_user_def)

lemma get_current_user_no_bearer:
  "bearer_token a = None \<Longrightarrow>
     get_current_user v (Some a) rows = (Inl (HTTPException 401 ''Invalid authorization scheme''), rows)"
  by (auto simp: bearer_token_None_iff get_current_user_def Let_def)


subsection \<open>A first login, and the login after it\<close>

lemma first_from_append_new:
  "\<forall>r\<in>set rows. \<not> P r \<Longrightarrow> P u \<Longrightarrow> first_from i P (rows @ [u]) = Some (i + length rows, u)"
  by (induction rows arbitrary: i) simp_all

lemma query_first_append_new:
  "\<forall>r\<in>set rows. \<not> P r \<Longrightarrow> P u \<Longrightarrow> query_first P (rows @ [u]) = Some (length rows, u)"
  using first_from_append_new [of rows P u 0] by (simp add: query_first_def)

lemma uid_absent: "Some x \<notin> uid ` set rows \<Longrightarrow> \<forall>r\<in>set rows. \<not> uid r = Some x"
  by force

lemma login_row_fields:
  "username (login_row now d n) = Some n" "email (login_row now d n) = tok_email d"
  "uid (login_row now d n) = Some (tok_uid d)" "display_name (login_row now d n) = tok_name d"
  "photo_url (login_row now d n) = tok_picture d" "hashed_password (login_row now d n) = None"
  "created_at (login_row now d n) = now"
  by (simp_all add: login_row_def)

lemma register_row_fields:
  "username (register_row now ud x) = Some (req_username ud)"
  "email (register_row now ud x) = Some (req_email ud)"
  "uid (register_row now ud x) = Some x" "display_name (register_row now ud x) = req_display_name ud"
  "hashed_password (register_row now ud x) = None" "created_at (register_row now ud x) = now"
  by (simp_all add: register_row_def)

lemma google_login_new:
  assumes v: "v t = Some d" and u: "Some (tok_uid d) \<notin> uid ` set rows"
    and e: "tok_email d = None \<or> tok_email d \<notin> email ` set rows"
  shows "\<exists>k. google_login v now t rows =
            Some (Inr \<lparr>new_user = True,
                       profile = profile_of (login_row now d (candidate (base_username_of d) k))\<rparr>,
                  rows @ [login_row now d (candidate (base_username_of d) k)]) \<and>
          Some (candidate (base_username_of d) k) \<notin> username ` set rows \<and>
          (\<forall>j<k. Some (candidate (base_username_of d) j) \<in> username ` set rows)"
proof -
  let ?b = "base_username_of d"
  obtain k where k: "collision_loop rows ?b 0 ?b = Some (k, candidate ?b k)"
    "Some (candidate ?b k) \<notin> username ` set rows"
    "\<forall>j<k. Some (candidate ?b j) \<in> username ` set rows"
    using loop_result [of rows ?b] by (auto simp: username_taken_iff)
  let ?u = "login_row now d (candidate ?b k)"
  have "\<not> violates_unique rows ?u"
    using k(2) u e by (auto simp: violates_unique_def clash_def login_row_fields)
  then have a: "add_commit rows ?u = Inr (rows @ [?u])" by (simp add: add_commit_def)
  have q: "query_first (\<lambda>r. uid r = Some (tok_uid d)) rows = None"
    using u by (simp add: query_first_uid_out)
  have "google_login v now t rows = Some (Inr \<lparr>new_user = True, profile = profile_of ?u\<rparr>, rows @ [?u])"
    using v q k(1) a by (simp add: google_login_def Let_def)
  with k(2,3) show ?thesis by blast
qed

lemma google_login_again:
  assumes "v t = Some d" and "\<forall>r\<in>set rows. \<not> uid r = Some (tok_uid d)" and "uid u = Some (tok_uid d)"
  shows "google_login v now t (rows @ [u]) =
           Some (Inr \<lparr>new_user = False, profile = profile_of u\<rparr>, rows @ [u])"
proof -
  have "query_first (\<lambda>r. uid r = Some (tok_uid d)) (rows @ [u]) = Some (length rows, u)"
    using assms(2,3) by (intro query_first_append_new) simp_all
  with assms(1) show ?thesis by (simp add: google_login_def)
qed


subsection \<open>One request alone makes the statements of \<open>google_login\<close>\<close>

lemma run1_add: "run1 c (m + n) s = run1 c n (run1 c m s)"
  by (induction m arbitrary: s) simp_all

lemma run1_loop:
  "\<not> username_taken rows (candidate base K) \<Longrightarrow>
   \<forall>j. c \<le> j \<and> j < K \<longrightarrow> username_taken rows (candidate base j) \<Longrightarrow> c \<le> K \<Longrightarrow>
   run1 (v, now, t) (Suc (K - c)) (Looping d base c (candidate base c), rows) =
     (Inserting d (candidate base K), rows)"
proof (induction "K - c" arbitrary: c)
  case 0
  then have "c = K" by simp
  with "0.prems"(1) show ?case by simp
next
  case (Suc n)
  then have lt: "c < K" by simp
  with Suc.prems(2) have taken: "username_taken rows (candidate base c)" by simp
  have ih: "run1 (v, now, t) (Suc (K - Suc c)) (Looping d base (Suc c) (candidate base (Suc c)), rows) =
      (Inserting d (candidate base K), rows)"
    using Suc.hyps(2) Suc.prems lt by (intro Suc.hyps(1)) auto
  have "K - c = Suc (K - Suc c)" using lt by simp
  with taken ih show ?case by (simp add: candidate_Suc)
qed

lemma run1_alone:
  "\<exists>n r rows'. run1 (v, now, t) n (Start, rows) = (Done r, rows') \<and>
      google_login v now t rows = Some (r, rows')"
proof (cases "v t")
  case None
  then have "run1 (v, now, t) (Suc 0) (Start, rows) =
      (Done (Inl (HTTPException 401 ''Invalid Google Token'')), rows)" by simp
  moreover have "google_login v now t rows = Some (Inl (HTTPException 401 ''Invalid Google Token''), rows)"
    using None by (simp add: google_login_def)
  ultimately show ?thesis by blast
next
  case (Some d)
  show ?thesis
  proof (cases "query_first (\<lambda>r. uid r = Some (tok_uid d)) rows")
    case found: (Some f)
    have "run1 (v, now, t) (Suc 0) (Start, rows) =
        (Done (Inr \<lparr>new_user = False, profile = profile_of (snd f)\<rparr>), rows)"
      using Some found by simp
    moreover have "google_login v now t rows =
        Some (Inr \<lparr>new_user = False, profile = profile_of (snd f)\<rparr>, rows)"
      using Some found by (simp add: google_login_def)
    ultimately show ?thesis by blast
  next
    case None
    let ?b = "base_username_of d"
    obtain k where k: "collision_loop rows ?b 0 ?b = Some (k, candidate ?b k)"
      "\<not> username_taken rows (candidate ?b k)" "\<forall>j<k. username_taken rows (candidate ?b j)"
      using loop_result [of rows ?b] by blast
    have first: "run1 (v, now, t) (Suc 0) (Start, rows) = (Looping d ?b 0 (candidate ?b 0), rows)"
      using Some None by (simp add: candidate_def)
    have loop: "run1 (v, now, t) (Suc (k - 0)) (Looping d ?b 0 (candidate ?b 0), rows) =
        (Inserting d (candidate ?b k), rows)"
      using k(2,3) by (intro run1_loop) auto
    let ?u = "login_row now d (candidate ?b k)"
    have upto: "run1 (v, now, t) (Suc 0 + Suc k) (Start, rows) = (Inserting d (candidate ?b k), rows)"
      using first loop by (simp only: run1_add) simp
    show ?thesis
    proof (cases "add_commit rows ?u")
      case (Inl e)
      have "run1 (v, now, t) ((Suc 0 + Suc k) + Suc 0) (Start, rows) = (Done (Inl e), rows)"
        using upto Inl by (simp only: run1_add) (simp add: Let_def)
      moreover have "google_login v now t rows = Some (Inl e, rows)"
        using Some None k(1) Inl by (simp add: google_login_def Let_def)
      ultimately show ?thesis by blast
    next
      case (Inr rows')
      have "run1 (v, now, t) ((Suc 0 + Suc k) + Suc 0) (Start, rows) =
          (Done (Inr \<lparr>new_user = True, profile = profile_of ?u\<rparr>), rows')"
        using upto Inr by (simp only: run1_add) (simp add: Let_def)
      moreover have "google_login v now t rows =
          Some (Inr \<lparr>new_user = True, profile = profile_of ?u\<rparr>, rows')"
        using Some None k(1) Inr by (simp add: google_login_def Let_def)
      ultimately show ?thesis by blast
    qed
  qed
qed

subsection \<open>Interleaved requests\<close>

lemma login_step_rows:
  "snd (login_step c p rows) = rows \<or>
   (\<exists>u. snd (login_step c p rows) = rows @ [u] \<and> \<not> violates_unique rows u)"
proof -
  obtain v now t where c: "c = (v, now, t)" by (cases c)
  show ?thesis unfolding c
    by (cases p) (auto simp: add_commit_def Let_def split: option.splits)
qed

lemma cols_ok_append: "cols_ok rows \<Longrightarrow> \<not> violates_unique rows u \<Longrightarrow> cols_ok (rows @ [u])"
  by (simp add: cols_ok_def violates_unique_def unique_col_append)

lemma login_step_cols_ok: "cols_ok rows \<Longrightarrow> cols_ok (snd (login_step c p rows))"
  using login_step_rows [of c p rows] by (auto simp: cols_ok_append)

lemma run2_cols_ok:
  "cols_ok rows \<Longrightarrow> cols_ok (snd (snd (run2 ca cb sch (pa, pb, rows))))"
proof (induction sch arbitrary: pa pb rows)
  case Nil
  then show ?case by simp
next
  case (Cons x sch)
  show ?case
  proof (cases x)
    case True
    have "cols_ok (snd (login_step ca pa rows))" using Cons.prems by (rule login_step_cols_ok)
    from Cons.IH [OF this, of "fst (login_step ca pa rows)" pb] True show ?thesis by simp
  next
    case False
    have "cols_ok (snd (login_step cb pb rows))" using Cons.prems by (rule login_step_cols_ok)
    from Cons.IH [OF this, of pa "fst (login_step cb pb rows)"] False show ?thesis by simp
  qed
qed

lemma race_step:
  assumes v: "v t = Some d" and u0: "Some (tok_uid d) \<notin> uid ` set rows0"
    and e: "tok_email d = None \<or> tok_email d \<notin> email ` set rows0"
    and st: "rows = rows0 \<or> (\<exists>u. rows = rows0 @ [u] \<and> uid u = Some (tok_uid d))"
    and p: "pc_ok rows0 d rows p" and q: "pc_ok rows0 d rows q"
  shows "(snd (login_step (v, now, t) p rows) = rows0 \<or>
          (\<exists>u. snd (login_step (v, now, t) p rows) = rows0 @ [u] \<and> uid u = Some (tok_uid d))) \<and>
         pc_ok rows0 d (snd (login_step (v, now, t) p rows)) (fst (login_step (v, now, t) p rows)) \<and>
         pc_ok rows0 d (snd (login_step (v, now, t) p rows)) q"
proof (cases p)
  case Start
  from st show ?thesis
  proof
    assume r: "rows = rows0"
    then have "query_first (\<lambda>r. uid r = Some (tok_uid d)) rows = None"
      using u0 by (simp add: query_first_uid_out)
    then show ?thesis using Start v st q by simp
  next
    assume "\<exists>u. rows = rows0 @ [u] \<and> uid u = Some (tok_uid d)"
    then obtain u where u: "rows = rows0 @ [u]" "uid u = Some (tok_uid d)" by blast
    have "query_first (\<lambda>r. uid r = Some (tok_uid d)) rows = Some (length rows0, u)"
      unfolding u(1) using uid_absent [OF u0] u(2) by (intro query_first_append_new) simp_all
    then show ?thesis using Start v st q u by simp
  qed
next
  case (Looping d' b c n)
  with p have d': "d' = d" by simp
  show ?thesis
  proof (cases "username_taken rows n")
    case True
    then show ?thesis using Looping d' st q by simp
  next
    case False
    then have "rows = rows0 \<longrightarrow> Some n \<notin> username ` set rows0"
      by (auto simp: username_taken_iff)
    then show ?thesis using Looping d' st q False by simp
  qed
next
  case (Inserting d' n)
  with p have d': "d' = d" and free: "rows = rows0 \<longrightarrow> Some n \<notin> username ` set rows0" by simp_all
  let ?u = "login_row now d n"
  from st show ?thesis
  proof
    assume r: "rows = rows0"
    have "\<not> violates_unique rows0 ?u"
      using free r u0 e by (auto simp: violates_unique_def clash_def login_row_fields)
    then have a: "add_commit rows ?u = Inr (rows0 @ [?u])" using r by (simp add: add_commit_def)
    have step: "login_step (v, now, t) p rows =
        (Done (Inr \<lparr>new_user = True, profile = profile_of ?u\<rparr>), rows0 @ [?u])"
      using Inserting d' a by (simp add: Let_def)
    have "pc_ok rows0 d (rows0 @ [?u]) q" using q r by (cases q) simp_all
    then show ?thesis unfolding step by (simp add: login_row_fields)
  next
    assume "\<exists>u. rows = rows0 @ [u] \<and> uid u = Some (tok_uid d)"
    then obtain u where u: "rows = rows0 @ [u]" "uid u = Some (tok_uid d)" by blast
    have "clash uid rows ?u" unfolding u(1) using u(2) by (force simp: clash_def login_row_fields)
    then have a: "add_commit rows ?u = Inl IntegrityError"
      by (simp add: add_commit_def violates_unique_def)
    have step: "login_step (v, now, t) p rows = (Done (Inl IntegrityError), rows)"
      using Inserting d' a by (simp add: Let_def)
    show ?thesis unfolding step using st q u by simp
  qed
next
  case (Done r)
  then show ?thesis using st p q by simp
qed

lemma run2_race_ok:
  assumes v: "v t = Some d" and u0: "Some (tok_uid d) \<notin> uid ` set rows0"
    and e: "tok_email d = None \<or> tok_email d \<notin> email ` set rows0"
  shows "race_ok rows0 d (pa, pb, rows) \<Longrightarrow>
         race_ok rows0 d (run2 (v, na, t) (v, nb, t) sch (pa, pb, rows))"
proof (induction sch arbitrary: pa pb rows)
  case Nil
  then show ?case by simp
next
  case (Cons x sch)
  from Cons.prems have st: "rows = rows0 \<or> (\<exists>u. rows = rows0 @ [u] \<and> uid u = Some (tok_uid d))"
    and pa: "pc_ok rows0 d rows pa" and pb: "pc_ok rows0 d rows pb"
    by (simp_all add: race_ok_def)
  show ?case
  proof (cases x)
    case True
    from race_step [where v = v and t = t and now = na, OF v u0 e st pa pb]
    have "race_ok rows0 d (fst (login_step (v, na, t) pa rows), pb, snd (login_step (v, na, t) pa rows))"
      by (simp add: race_ok_def)
    from Cons.IH [OF this] True show ?thesis by simp
  next
    case False
    from race_step [where v = v and t = t and now = nb, OF v u0 e st pb pa]
    have "race_ok rows0 d (pa, fst (login_step (v, nb, t) pb rows), snd (login_step (v, nb, t) pb rows))"
      by (simp add: race_ok_def)
    from Cons.IH [OF this] False show ?thesis by simp
  qed
qed

lemma rows_of_uid_absent: "Some x \<notin> uid ` set rows \<Longrightarrow> rows_of_uid x rows = []"
  unfolding rows_of_uid_def filter_empty_conv by force

subsection \<open>Every request ends\<close>

lemma loop_ok_own: "loop_ok rows p \<Longrightarrow> loop_ok (snd (login_step c p rows)) (fst (login_step c p rows))"
proof -
  assume ok: "loop_ok rows p"
  obtain v now t where c: "c = (v, now, t)" by (cases c)
  show ?thesis
  proof (cases p)
    case Start
    then show ?thesis unfolding c by (simp add: candidate_def split: option.splits)
  next
    case (Looping d b k n)
    with ok have n: "n = candidate b k" and below: "\<forall>j<k. Some (candidate b j) \<in> username ` set rows"
      by simp_all
    show ?thesis
    proof (cases "username_taken rows n")
      case True
      then have "Some (candidate b k) \<in> username ` set rows" using n by (simp add: username_taken_iff)
      with below have "\<forall>j<Suc k. Some (candidate b j) \<in> username ` set rows"
        by (auto simp: less_Suc_eq)
      then show ?thesis unfolding c using Looping True by (simp add: candidate_Suc)
    next
      case False
      then show ?thesis unfolding c using Looping by simp
    qed
  next
    case (Inserting d n)
    then show ?thesis unfolding c by (simp add: Let_def split: sum.splits)
  next
    case (Done r)
    then show ?thesis unfolding c by simp
  qed
qed

lemma loop_ok_other: "loop_ok rows q \<Longrightarrow> loop_ok (snd (login_step c p rows)) q"
  using login_step_rows [of c p rows] by (cases q) auto

lemma loop_count_le:
  assumes "\<forall>j<c. Some (candidate b j) \<in> username ` set rows"
  shows "c \<le> length rows"
proof -
  let ?f = "\<lambda>k. Some (candidate b k)"
  have sub: "?f ` {..<c} \<subseteq> username ` set rows" using assms by auto
  have "inj_on ?f {..<c}" by (auto simp: inj_on_def dest: candidate_inj)
  then have "card (?f ` {..<c}) = c" by (simp add: card_image)
  moreover have "card (?f ` {..<c}) \<le> card (username ` set rows)"
    using sub by (intro card_mono) auto
  moreover have "card (username ` set rows) \<le> length rows"
    by (meson card_image_le card_length le_trans List.finite_set)
  ultimately show ?thesis by simp
qed

lemma step_progress:
  assumes "length rows \<le> Suc L" and "loop_ok rows p"
  shows "pc_left L (fst (login_step c p rows)) \<le> pc_left L p - 1"
proof -
  obtain v now t where c: "c = (v, now, t)" by (cases c)
  show ?thesis
  proof (cases p)
    case Start
    then show ?thesis unfolding c by (simp split: option.splits)
  next
    case (Looping d b k n)
    with assms(2) have "\<forall>j<k. Some (candidate b j) \<in> username ` set rows" by simp
    then have "k \<le> length rows" by (rule loop_count_le)
    with assms(1) have "k \<le> Suc L" by simp
    then have "Suc 0 \<le> Suc (Suc L) - k" by arith
    then show ?thesis unfolding c using Looping by simp
  next
    case (Inserting d n)
    then show ?thesis unfolding c by (simp add: Let_def split: sum.splits)
  next
    case (Done r)
    then show ?thesis unfolding c by simp
  qed
qed

lemma race_ok_length: "race_ok rows0 d s \<Longrightarrow> length (snd (snd s)) \<le> Suc (length rows0)"
  by (auto simp: race_ok_def)

lemma pc_left_0:
  assumes "pc_left L p = 0" and "loop_ok rows p" and "length rows \<le> Suc L"
  shows "\<exists>r. p = Done r"
proof (cases p)
  case (Looping d b k n)
  with assms(2) have "\<forall>j<k. Some (candidate b j) \<in> username ` set rows" by simp
  then have "k \<le> length rows" by (rule loop_count_le)
  with assms(1,3) Looping show ?thesis by simp
qed (use assms(1) in simp_all)

lemma run2_progress:
  assumes v: "v t = Some d" and u0: "Some (tok_uid d) \<notin> uid ` set rows0"
    and e: "tok_email d = None \<or> tok_email d \<notin> email ` set rows0"
  shows "race_inv rows0 d (pa, pb, rows) \<Longrightarrow>
         race_inv rows0 d (run2 (v, na, t) (v, nb, t) sch (pa, pb, rows)) \<and>
         pc_left (length rows0) (fst (run2 (v, na, t) (v, nb, t) sch (pa, pb, rows)))
           \<le> pc_left (length rows0) pa - length (filter (\<lambda>x. x) sch) \<and>
         pc_left (length rows0) (fst (snd (run2 (v, na, t) (v, nb, t) sch (pa, pb, rows))))
           \<le> pc_left (length rows0) pb - length (filter Not sch)"
proof (induction sch arbitrary: pa pb rows)
  case Nil
  then show ?case by simp
next
  case (Cons x sch)
  let ?L = "length rows0"
  from Cons.prems have ro: "race_ok rows0 d (pa, pb, rows)"
    and la: "loop_ok rows pa" and lb: "loop_ok rows pb" by (simp_all add: race_inv_def)
  from race_ok_length [OF ro] have len: "length rows \<le> Suc ?L" by simp
  show ?case
  proof (cases x)
    case True
    let ?s = "login_step (v, na, t) pa rows"
    have "race_ok rows0 d (run2 (v, na, t) (v, nb, t) [True] (pa, pb, rows))"
      using ro by (rule run2_race_ok [where v = v and t = t, OF v u0 e])
    then have "race_ok rows0 d (fst ?s, pb, snd ?s)" by simp
    moreover have "loop_ok (snd ?s) (fst ?s)" using la by (rule loop_ok_own)
    moreover have "loop_ok (snd ?s) pb" using lb by (rule loop_ok_other)
    ultimately have inv1: "race_inv rows0 d (fst ?s, pb, snd ?s)" by (simp add: race_inv_def)
    have p1: "pc_left ?L (fst ?s) \<le> pc_left ?L pa - 1" using len la by (rule step_progress)
    from Cons.IH [OF inv1] p1 True show ?thesis by auto
  next
    case False
    let ?s = "login_step (v, nb, t) pb rows"
    have "race_ok rows0 d (run2 (v, na, t) (v, nb, t) [False] (pa, pb, rows))"
      using ro by (rule run2_race_ok [where v = v and t = t, OF v u0 e])
    then have "race_ok rows0 d (pa, fst ?s, snd ?s)" by simp
    moreover have "loop_ok (snd ?s) (fst ?s)" using lb by (rule loop_ok_own)
    moreover have "loop_ok (snd ?s) pa" using la by (rule loop_ok_other)
    ultimately have inv1: "race_inv rows0 d (pa, fst ?s, snd ?s)" by (simp add: race_inv_def)
    have p1: "pc_left ?L (fst ?s) \<le> pc_left ?L pb - 1" using len lb by (rule step_progress)
    from Cons.IH [OF inv1] p1 False show ?thesis by auto
  qed
qed

lemma run2_both_done:
  assumes v: "v t = Some d" and u0: "Some (tok_uid d) \<notin> uid ` set rows"
    and e: "tok_email d = None \<or> tok_email d \<notin> email ` set rows"
    and r: "run2 (v, na, t) (v, nb, t) sch (Start, Start, rows) = (pa, pb, rows')"
    and a: "length rows + 4 \<le> length (filter (\<lambda>x. x) sch)"
    and b: "length rows + 4 \<le> length (filter Not sch)"
  shows "\<exists>ra rb. pa = Done ra \<and> pb = Done rb"
proof -
  have "race_inv rows d (Start, Start, rows)" by (simp add: race_inv_def race_ok_def)
  from run2_progress [where v = v and t = t and na = na and nb = nb and sch = sch, OF v u0 e this]
  have inv: "race_inv rows d (pa, pb, rows')"
    and la: "pc_left (length rows) pa \<le> length rows + 4 - length (filter (\<lambda>x. x) sch)"
    and lb: "pc_left (length rows) pb \<le> length rows + 4 - length (filter Not sch)"
    by (simp_all add: r)
  from la a have za: "pc_left (length rows) pa = 0" by simp
  from lb b have zb: "pc_left (length rows) pb = 0" by simp
  from inv have len: "length rows' \<le> Suc (length rows)"
    and oa: "loop_ok rows' pa" and ob: "loop_ok rows' pb"
    using race_ok_length [of rows d "(pa, pb, rows')"] by (simp_all add: race_inv_def)
  from pc_left_0 [OF za oa len] pc_left_0 [OF zb ob len] show ?thesis by blast
qed


section \<open>Sequential requests keep the table's invariants\<close>

text \<open>
  C1. Starting from a table whose \<open>username\<close> and \<open>email\<close> columns are unique, every
  sequence of register, google-login and update-profile requests, handled one after the
  other, runs to its end and leaves a table whose \<open>username\<close> and \<open>email\<close> columns are
  unique, and in which every row that was there before is still there with the \<open>uid\<close> it
  had. (A column is unique when no two rows hold the same value; a missing email is no
  value.)
\<close>

theorem sequential_requests_keep_invariants:
  assumes "unique_col username rows" and "unique_col email rows"
  shows "\<exists>rows'. run v qs rows = Some rows' \<and>
           unique_col username rows' \<and> unique_col email rows' \<and>
           length rows \<le> length rows' \<and> (\<forall>i<length rows. uid (rows' ! i) = uid (rows ! i))"
proof -
  have "store_ok rows" using assms by (simp add: store_ok_def)
  from run_store_ok [OF this, of v qs] show ?thesis
    by (auto simp: store_ok_def keeps_uids_def)
qed

theorem sequential_requests_keep_invariants_witness:
  "unique_col username ex_rows \<and> unique_col email ex_rows \<and>
   map username (the (run ex_verify ex_requests ex_rows)) =
     [Some ''alice'', Some ''alice1'', Some ''alice2'', Some ''carol''] \<and>
   unique_col username (the (run ex_verify ex_requests ex_rows)) \<and>
   unique_col email (the (run ex_verify ex_requests ex_rows)) \<and>
   uid (the (run ex_verify ex_requests ex_rows) ! 0) = uid (ex_rows ! 0) \<and>
   uid (the (run ex_verify ex_requests ex_rows) ! 1) = uid (ex_rows ! 1)"
proof -
  have u: "unique_col username ex_rows" by code_simp
  have e: "unique_col email ex_rows" by code_simp
  have len: "length ex_rows = 2" by (simp add: ex_rows_def)
  have names: "map username (the (run ex_verify ex_requests ex_rows)) =
     [Some ''alice'', Some ''alice1'', Some ''alice2'', Some ''carol'']" by code_simp
  from sequential_requests_keep_invariants [OF u e, of ex_verify ex_requests]
  obtain rows' where r: "run ex_verify ex_requests ex_rows = Some rows'"
    "unique_col username rows'" "unique_col email rows'"
    "\<forall>i<length ex_rows. uid (rows' ! i) = uid (ex_rows ! i)" by blast
  from r(4) len have "uid (rows' ! 0) = uid (ex_rows ! 0)" "uid (rows' ! 1) = uid (ex_rows ! 1)"
    by simp_all
  with u e names r show ?thesis by simp
qed


section \<open>The username collision loop\<close>

text \<open>
  C2. For every table and every base username, the collision loop of \<open>google_login\<close>,
  started as the code starts it (count 0, the bare base), returns the first name of the
  sequence base, base1, base2, ... that no row of the table has as its username: the name
  it returns is not in the table, and every earlier name of the sequence is. So when the
  base and the suffixes 1 to k - 1 are taken, the result carries the smallest unused
  suffix k, and it is the bare base when the base is free.
\<close>

theorem collision_loop_smallest_suffix:
  "\<exists>k. collision_loop rows base 0 base = Some (k, candidate base k) \<and>
        Some (candidate base k) \<notin> username ` set rows \<and>
        (\<forall>j<k. Some (candidate base j) \<in> username ` set rows)"
  using loop_result [of rows base] by (auto simp: username_taken_iff)

theorem collision_loop_smallest_suffix_witness:
  "collision_loop ex_rows ''alice'' 0 ''alice'' = Some (2, ''alice2'') \<and>
   Some ''alice2'' \<notin> username ` set ex_rows \<and>
   Some ''alice'' \<in> username ` set ex_rows \<and> Some ''alice1'' \<in> username ` set ex_rows"
proof -
  have run: "collision_loop ex_rows ''alice'' 0 ''alice'' = Some (2, ''alice2'')" by code_simp
  have c: "candidate ''alice'' 0 = ''alice''" "candidate ''alice'' 1 = ''alice1''"
    "candidate ''alice'' 2 = ''alice2''" by code_simp+
  from collision_loop_smallest_suffix [of ex_rows "''alice''"] run
  have free: "Some (candidate ''alice'' 2) \<notin> username ` set ex_rows"
    and below: "\<forall>j<2. Some (candidate ''alice'' j) \<in> username ` set ex_rows" by auto
  from below have "Some (candidate ''alice'' 0) \<in> username ` set ex_rows"
    and "Some (candidate ''alice'' 1) \<in> username ` set ex_rows" by simp_all
  with free run show ?thesis unfolding c by simp
qed


text \<open>
  C8. The collision loop returns on every table and every base username, after examining
  at most one name more than the table has rows; the names it examines are base, base1,
  base2, ... up to the one it returns, in this order (from each of these loop states the
  run ends in the same result), so they depend on the table and the base alone.
  Hence \<open>google_login\<close> returns on every input.
\<close>

theorem collision_loop_terminates:
  "(\<exists>k\<le>length rows. \<forall>j\<le>k. collision_loop rows base j (candidate base j) = Some (k, candidate base k)) \<and>
   collision_loop rows base 0 base \<noteq> None \<and> google_login v now t rows \<noteq> None"
proof -
  obtain k where k: "k \<le> length rows" "\<not> username_taken rows (candidate base k)"
    "\<forall>j<k. username_taken rows (candidate base j)"
    "collision_loop rows base 0 base = Some (k, candidate base k)"
    using loop_result [of rows base] by blast
  have "collision_loop rows base j (candidate base j) = Some (k, candidate base k)" if "j \<le> k" for j
    using k(2,3) that by (intro loop_run) auto
  with k(1,4) show ?thesis using google_login_returns by auto
qed

theorem collision_loop_terminates_witness:
  "collision_loop ex_rows ''alice'' 0 (candidate ''alice'' 0) = Some (2, ''alice2'') \<and>
   collision_loop ex_rows ''alice'' 1 (candidate ''alice'' 1) = Some (2, ''alice2'') \<and>
   collision_loop ex_rows ''alice'' 2 (candidate ''alice'' 2) = Some (2, ''alice2'') \<and>
   (2::nat) \<le> length ex_rows \<and> google_login ex_verify 7 ''tok-al2'' ex_rows \<noteq> None"
proof -
  have run: "collision_loop ex_rows ''alice'' 0 (candidate ''alice'' 0) = Some (2, ''alice2'')"
    by code_simp
  have c: "candidate ''alice'' 2 = ''alice2''" by code_simp
  from collision_loop_terminates [of ex_rows "''alice''" ex_verify 7 "''tok-al2''"]
  obtain k where k: "k \<le> length ex_rows"
    "\<forall>j\<le>k. collision_loop ex_rows ''alice'' j (candidate ''alice'' j) = Some (k, candidate ''alice'' k)"
    and g: "google_login ex_verify 7 ''tok-al2'' ex_rows \<noteq> None" by blast
  from k(2) run have k2: "k = 2" by auto
  have len: "length ex_rows = 2" by (simp add: ex_rows_def)
  from k(2) k2 have every: "collision_loop ex_rows ''alice'' j (candidate ''alice'' j) =
      Some (2, candidate ''alice'' 2)" if "j \<le> 2" for j using that by simp
  have "collision_loop ex_rows ''alice'' 1 (candidate ''alice'' 1) = Some (2, ''alice2'')"
    using every [of 1] c by simp
  moreover have "collision_loop ex_rows ''alice'' 2 (candidate ''alice'' 2) = Some (2, ''alice2'')"
    using every [of 2] c by simp
  ultimately show ?thesis using run g len by simp
qed


section \<open>\<open>register_user\<close>: a header without a second piece\<close>

text \<open>
  C10. When the authorization header of a register request is a non-empty string that
  \<open>split()\<close> cuts into fewer than two pieces (a bare token without the prefix, for
  example), \<open>authorization.split()[1]\<close> reads past the end of the list: the handler
  ends in an uncaught IndexError, not in the 401 error, and the table is unchanged.
\<close>

theorem register_user_index_error:
  assumes "a \<noteq> []" and "length (py_split a) < 2"
  shows "register_user v now ud (Some a) rows = (Inl IndexError, rows) \<and>
         \<not> is_status 401 (fst (register_user v now ud (Some a) rows))"
  using assms by (simp add: register_user_def Let_def)

theorem register_user_index_error_witness:
  "''tok-anon'' \<noteq> [] \<and> length (py_split ''tok-anon'') < 2 \<and>
   register_user ex_verify 8 ex_carol (Some ''tok-anon'') ex_rows = (Inl IndexError, ex_rows) \<and>
   \<not> is_status 401 (fst (register_user ex_verify 8 ex_carol (Some ''tok-anon'') ex_rows))"
proof -
  have h1: "''tok-anon'' \<noteq> []" by simp
  have h2: "length (py_split ''tok-anon'') < 2" by code_simp
  from register_user_index_error [OF h1 h2, of ex_verify 8 ex_carol ex_rows] h1 h2
  show ?thesis by simp
qed


section \<open>\<open>get_current_user\<close>, the guard of the protected routes\<close>

text \<open>
  C5. \<open>get_current_user\<close> never changes the table, so it creates no user. It fails with
  status 401 when the header is missing, when the header is not made of two pieces with
  \<open>Bearer\<close> first, and when the provider rejects the token; it fails with status 404
  when the token verifies and no row has the verified \<open>uid\<close>; and when a row has it,
  it returns such a row of the table.
\<close>

theorem get_current_user_outcomes:
  "snd (get_current_user v h rows) = rows \<and>
   (h = None \<longrightarrow> is_status 401 (fst (get_current_user v h rows))) \<and>
   (\<forall>a. h = Some a \<and> bearer_token a = None \<longrightarrow> is_status 401 (fst (get_current_user v h rows))) \<and>
   (\<forall>a t. h = Some a \<and> bearer_token a = Some t \<and> v t = None \<longrightarrow>
      is_status 401 (fst (get_current_user v h rows))) \<and>
   (\<forall>a t d. h = Some a \<and> bearer_token a = Some t \<and> v t = Some d \<and>
      Some (tok_uid d) \<notin> uid ` set rows \<longrightarrow>
      is_status 404 (fst (get_current_user v h rows))) \<and>
   (\<forall>a t d. h = Some a \<and> bearer_token a = Some t \<and> v t = Some d \<and>
      Some (tok_uid d) \<in> uid ` set rows \<longrightarrow>
      (\<exists>i<length rows. fst (get_current_user v h rows) = Inr (i, rows ! i) \<and>
         uid (rows ! i) = Some (tok_uid d)))"
proof (intro conjI allI impI)
  show "snd (get_current_user v h rows) = rows" by (rule get_current_user_db)
next
  assume "h = None"
  then show "is_status 401 (fst (get_current_user v h rows))"
    by (simp add: get_current_user_def)
next
  fix a assume "h = Some a \<and> bearer_token a = None"
  then show "is_status 401 (fst (get_current_user v h rows))"
    by (simp add: get_current_user_no_bearer)
next
  fix a t assume "h = Some a \<and> bearer_token a = Some t \<and> v t = None"
  then show "is_status 401 (fst (get_current_user v h rows))"
    by (simp add: get_current_user_bearer)
next
  fix a t d
  assume "h = Some a \<and> bearer_token a = Some t \<and> v t = Some d \<and> Some (tok_uid d) \<notin> uid ` set rows"
  then show "is_status 404 (fst (get_current_user v h rows))"
    by (simp add: get_current_user_bearer query_first_uid_out)
next
  fix a t d
  assume a: "h = Some a \<and> bearer_token a = Some t \<and> v t = Some d \<and> Some (tok_uid d) \<in> uid ` set rows"
  then obtain i where "i < length rows"
    "query_first (\<lambda>r. uid r = Some (tok_uid d)) rows = Some (i, rows ! i)"
    "uid (rows ! i) = Some (tok_uid d)" using query_first_uid_in by blast
  with a show "\<exists>i<length rows. fst (get_current_user v h rows) = Inr (i, rows ! i) \<and>
         uid (rows ! i) = Some (tok_uid d)"
    by (auto simp: get_current_user_bearer)
qed

theorem get_current_user_outcomes_witness:
  "snd (get_current_user ex_verify (Some ''Bearer tok-alice'') ex_rows) = ex_rows \<and>
   is_status 401 (fst (get_current_user ex_verify None ex_rows)) \<and>
   bearer_token ''tok-alice'' = None \<and>
   is_status 401 (fst (get_current_user ex_verify (Some ''tok-alice'') ex_rows)) \<and>
   bearer_token ''Bearer forged'' = Some ''forged'' \<and> ex_verify ''forged'' = None \<and>
   is_status 401 (fst (get_current_user ex_verify (Some ''Bearer forged'') ex_rows)) \<and>
   bearer_token ''Bearer tok-al2'' = Some ''tok-al2'' \<and>
   Some ''uid-al2'' \<notin> uid ` set ex_rows \<and>
   is_status 404 (fst (get_current_user ex_verify (Some ''Bearer tok-al2'') ex_rows)) \<and>
   bearer_token ''Bearer tok-alice'' = Some ''tok-alice'' \<and>
   Some ''uid-alice'' \<in> uid ` set ex_rows \<and>
   fst (get_current_user ex_verify (Some ''Bearer tok-alice'') ex_rows) = Inr (0, ex_rows ! 0)"
proof -
  have b1: "bearer_token ''tok-alice'' = None" by code_simp
  have b2: "bearer_token ''Bearer forged'' = Some ''forged''" by code_simp
  have v2: "ex_verify ''forged'' = None" by code_simp
  have b3: "bearer_token ''Bearer tok-al2'' = Some ''tok-al2''" by code_simp
  have v3: "ex_verify ''tok-al2'' = Some \<lparr>tok_uid = ''uid-al2'', tok_email = Some ''alice@other.org'',
              tok_name = None, tok_picture = Some ''http://p/al2.png''\<rparr>" by code_simp
  have u3: "Some ''uid-al2'' \<notin> uid ` set ex_rows" by code_simp
  have b4: "bearer_token ''Bearer tok-alice'' = Some ''tok-alice''" by code_simp
  have u4: "Some ''uid-alice'' \<in> uid ` set ex_rows" by code_simp
  have r4: "fst (get_current_user ex_verify (Some ''Bearer tok-alice'') ex_rows) = Inr (0, ex_rows ! 0)"
    by code_simp
  have "snd (get_current_user ex_verify (Some ''Bearer tok-alice'') ex_rows) = ex_rows"
    using get_current_user_outcomes [of ex_verify "Some ''Bearer tok-alice''" ex_rows] by simp
  moreover have "is_status 401 (fst (get_current_user ex_verify None ex_rows))"
    using get_current_user_outcomes [of ex_verify None ex_rows] by simp
  moreover have "is_status 401 (fst (get_current_user ex_verify (Some ''tok-alice'') ex_rows))"
    using get_current_user_outcomes [of ex_verify "Some ''tok-alice''" ex_rows] b1 by simp
  moreover have "is_status 401 (fst (get_current_user ex_verify (Some ''Bearer forged'') ex_rows))"
    using get_current_user_outcomes [of ex_verify "Some ''Bearer forged''" ex_rows] b2 v2 by simp
  moreover have "is_status 404 (fst (get_current_user ex_verify (Some ''Bearer tok-al2'') ex_rows))"
    using get_current_user_outcomes [of ex_verify "Some ''Bearer tok-al2''" ex_rows] b3 v3 u3
    by simp
  ultimately show ?thesis using b1 b2 v2 b3 u3 b4 u4 r4 by simp
qed


section \<open>\<open>update_user_profile\<close>\<close>

text \<open>
  C7. For the user that \<open>get_current_user\<close> returns and every payload,
  \<open>update_user_profile\<close> writes back that user's row with each of \<open>display_name\<close>,
  \<open>state\<close>, \<open>language\<close>, \<open>photo_url\<close> and \<open>bio\<close> set to the supplied value when
  that value is truthy, and left as it was when the value is missing or the empty
  string; no other column changes. With the payload
  \<open>{display_name: "", bio: "new bio"}\<close> the display name stays and the bio becomes
  \<open>"new bio"\<close>.
\<close>

theorem update_user_profile_sets_truthy_fields:
  assumes "fst (get_current_user v h rows) = Inr (i, u)"
  shows "\<exists>u'. update_user_profile v p h rows = (Inr (updated_profile_of u'), rows[i := u']) \<and>
           i < length rows \<and> rows ! i = u \<and>
           display_name u' = (if truthy (upd_display_name p) then upd_display_name p else display_name u) \<and>
           state u' = (if truthy (upd_state p) then upd_state p else state u) \<and>
           language u' = (if truthy (upd_language p) then upd_language p else language u) \<and>
           photo_url u' = (if truthy (upd_photo_url p) then upd_photo_url p else photo_url u) \<and>
           bio u' = (if truthy (upd_bio p) then upd_bio p else bio u) \<and>
           username u' = username u \<and> email u' = email u \<and> uid u' = uid u \<and>
           hashed_password u' = hashed_password u \<and> is_active u' = is_active u \<and>
           created_at u' = created_at u"
proof -
  have "get_current_user v h rows = (Inr (i, u), rows)"
    using assms get_current_user_db [of v h rows] by (simp add: prod_eq_iff)
  then have iu: "i < length rows" "rows ! i = u" using get_current_user_found by blast+
  have "update_user_profile v p h rows =
      (Inr (updated_profile_of (apply_update p u)), rows[i := apply_update p u])"
    using assms by (simp add: update_user_profile_def Let_def)
  with iu show ?thesis
    by (intro exI [of _ "apply_update p u"]) (simp add: apply_update_fields apply_update_keys)
qed

theorem update_user_profile_sets_truthy_fields_witness:
  "fst (get_current_user ex_verify (Some ''Bearer tok-alice'') ex_rows) = Inr (0, ex_rows ! 0) \<and>
   upd_display_name ex_update = Some [] \<and> upd_bio ex_update = Some ''new bio'' \<and>
   display_name (ex_rows ! 0) = Some ''Alice A.'' \<and> bio (ex_rows ! 0) = None \<and>
   display_name (snd (update_user_profile ex_verify ex_update (Some ''Bearer tok-alice'') ex_rows) ! 0)
     = Some ''Alice A.'' \<and>
   bio (snd (update_user_profile ex_verify ex_update (Some ''Bearer tok-alice'') ex_rows) ! 0)
     = Some ''new bio''"
proof -
  have g: "fst (get_current_user ex_verify (Some ''Bearer tok-alice'') ex_rows) = Inr (0, ex_rows ! 0)"
    by code_simp
  have p: "upd_display_name ex_update = Some []" "upd_bio ex_update = Some ''new bio''"
    by (simp_all add: ex_update_def)
  have o: "display_name (ex_rows ! 0) = Some ''Alice A.''" "bio (ex_rows ! 0) = None"
    by (simp_all add: ex_rows_def ex_row_def)
  have len: "0 < length ex_rows" by (simp add: ex_rows_def)
  from update_user_profile_sets_truthy_fields [OF g, of ex_update]
  obtain u' where u: "update_user_profile ex_verify ex_update (Some ''Bearer tok-alice'') ex_rows =
      (Inr (updated_profile_of u'), ex_rows[0 := u'])"
    "display_name u' = (if truthy (upd_display_name ex_update) then upd_display_name ex_update
       else display_name (ex_rows ! 0))"
    "bio u' = (if truthy (upd_bio ex_update) then upd_bio ex_update else bio (ex_rows ! 0))"
    by blast
  from u(2,3) p o have "display_name u' = Some ''Alice A.''" "bio u' = Some ''new bio''" by simp_all
  with u(1) len g p o show ?thesis by simp
qed


section \<open>\<open>google_login\<close>: first and later logins\<close>

text \<open>
  C3, as amended. For a token whose claims hold a non-empty email and a \<open>uid\<close> that no
  row has, and whose email is not the email of any row: \<open>google_login\<close> returns
  \<open>new_user = True\<close>, and a second call with any token of the same \<open>uid\<close>, on the
  table the first call left, returns \<open>new_user = False\<close> with the same profile and
  leaves the table as it is. Without the condition on the email the claim fails: when
  another row already has the email, the insert of the first call is refused by the
  unique constraint of the column (the counterexample).
\<close>

theorem google_login_twice:
  assumes "v t = Some d" and "Some (tok_uid d) \<notin> uid ` set rows"
    and "tok_email d = Some e" and "e \<noteq> []" and "Some e \<notin> email ` set rows"
    and "v2 t2 = Some d2" and "tok_uid d2 = tok_uid d"
  shows "\<exists>p rows'. google_login v now t rows = Some (Inr \<lparr>new_user = True, profile = p\<rparr>, rows') \<and>
           google_login v2 now2 t2 rows' = Some (Inr \<lparr>new_user = False, profile = p\<rparr>, rows')"
proof -
  have e: "tok_email d = None \<or> tok_email d \<notin> email ` set rows" using assms(3,5) by simp
  from google_login_new [where v = v and t = t and d = d and rows = rows and now = now, OF assms(1,2) e]
  obtain k where
    first: "google_login v now t rows =
       Some (Inr \<lparr>new_user = True,
                  profile = profile_of (login_row now d (candidate (base_username_of d) k))\<rparr>,
             rows @ [login_row now d (candidate (base_username_of d) k)])" by blast
  let ?u = "login_row now d (candidate (base_username_of d) k)"
  have absent: "\<forall>r\<in>set rows. \<not> uid r = Some (tok_uid d2)"
    using uid_absent [OF assms(2)] assms(7) by simp
  have "uid ?u = Some (tok_uid d2)" using assms(7) by (simp add: login_row_fields)
  from google_login_again [where v = v2 and t = t2 and d = d2 and rows = rows and u = ?u
      and now = now2, OF assms(6) absent this]
  have "google_login v2 now2 t2 (rows @ [?u]) =
      Some (Inr \<lparr>new_user = False, profile = profile_of ?u\<rparr>, rows @ [?u])" .
  with first show ?thesis by blast
qed

theorem google_login_twice_counterexample:
  "ex_verify ''tok-dup'' =
     Some \<lparr>tok_uid = ''uid-dup'', tok_email = Some ''alice@example.com'',
           tok_name = None, tok_picture = None\<rparr> \<and>
   Some ''uid-dup'' \<notin> uid ` set ex_rows \<and>
   google_login ex_verify 9 ''tok-dup'' ex_rows = Some (Inl IntegrityError, ex_rows)"
  by code_simp

theorem google_login_twice_witness:
  "ex_verify ''tok-al2'' =
     Some \<lparr>tok_uid = ''uid-al2'', tok_email = Some ''alice@other.org'',
           tok_name = None, tok_picture = Some ''http://p/al2.png''\<rparr> \<and>
   Some ''uid-al2'' \<notin> uid ` set ex_rows \<and> Some ''alice@other.org'' \<notin> email ` set ex_rows \<and>
   (\<exists>p rows'. google_login ex_verify 7 ''tok-al2'' ex_rows =
        Some (Inr \<lparr>new_user = True, profile = p\<rparr>, rows') \<and>
      google_login ex_verify 8 ''tok-al2'' rows' = Some (Inr \<lparr>new_user = False, profile = p\<rparr>, rows') \<and>
      p_username p = Some ''alice2'' \<and> length rows' = 3)"
proof -
  let ?d = "\<lparr>tok_uid = ''uid-al2'', tok_email = Some ''alice@other.org'',
           tok_name = None, tok_picture = Some ''http://p/al2.png''\<rparr>"
  have v: "ex_verify ''tok-al2'' = Some ?d" by code_simp
  have u: "Some (tok_uid ?d) \<notin> uid ` set ex_rows" by code_simp
  have e: "tok_email ?d = Some ''alice@other.org''" by simp
  have ne: "''alice@other.org'' \<noteq> []" by simp
  have eo: "Some ''alice@other.org'' \<notin> email ` set ex_rows" by code_simp
  have same: "tok_uid ?d = tok_uid ?d" by simp
  from google_login_twice [where v = ex_verify and t = "''tok-al2''" and d = ?d and rows = ex_rows
      and e = "''alice@other.org''" and ?v2.0 = ex_verify and ?t2.0 = "''tok-al2''" and ?d2.0 = ?d
      and now = 7 and ?now2.0 = 8, OF v u e ne eo v same]
  obtain p rows' where pr:
    "google_login ex_verify 7 ''tok-al2'' ex_rows = Some (Inr \<lparr>new_user = True, profile = p\<rparr>, rows')"
    "google_login ex_verify 8 ''tok-al2'' rows' = Some (Inr \<lparr>new_user = False, profile = p\<rparr>, rows')"
    by blast
  have "map_option (\<lambda>r. case fst r of Inr x \<Rightarrow> p_username (profile x) | Inl y \<Rightarrow> None)
          (google_login ex_verify 7 ''tok-al2'' ex_rows) = Some (Some ''alice2'')" by code_simp
  with pr(1) have pu: "p_username p = Some ''alice2''" by simp
  have "map_option (\<lambda>r. length (snd r)) (google_login ex_verify 7 ''tok-al2'' ex_rows) = Some 3"
    by code_simp
  with pr(1) have "length rows' = 3" by simp
  with pr pu v u eo show ?thesis by auto
qed


text \<open>
  C4, as amended. For a token that verifies, whose \<open>uid\<close> no row has and whose email, if
  it has one, is not the email of any row: \<open>google_login\<close> appends exactly one row and
  returns its profile with \<open>new_user = True\<close>. The base of the row's username is the
  part of the email before the first \<open>@\<close> when the claims hold a non-empty email, and
  \<open>user_\<close> followed by the first 8 characters of the \<open>uid\<close> otherwise; the username is
  the first free name of base, base1, base2, ... The row carries the claims' \<open>uid\<close>,
  email, name and picture, and no password. Without the condition on the email the claim
  fails: the insert is refused when another row has the email; and an email claim that
  is the empty string counts as no email (the counterexample shows both).
\<close>

theorem google_login_creates:
  assumes "v t = Some d" and "Some (tok_uid d) \<notin> uid ` set rows"
    and "tok_email d = None \<or> tok_email d \<notin> email ` set rows"
  shows "\<exists>k u base. google_login v now t rows =
             Some (Inr \<lparr>new_user = True, profile = profile_of u\<rparr>, rows @ [u]) \<and>
           base = (if truthy (tok_email d) then takeWhile (\<lambda>c. c \<noteq> CHR ''@'') (the (tok_email d))
                   else ''user_'' @ take 8 (tok_uid d)) \<and>
           username u = Some (candidate base k) \<and>
           Some (candidate base k) \<notin> username ` set rows \<and>
           (\<forall>j<k. Some (candidate base j) \<in> username ` set rows) \<and>
           uid u = Some (tok_uid d) \<and> email u = tok_email d \<and>
           display_name u = tok_name d \<and> photo_url u = tok_picture d \<and>
           hashed_password u = None \<and> created_at u = now"
proof -
  from google_login_new [where v = v and t = t and d = d and rows = rows and now = now, OF assms]
  obtain k where k: "google_login v now t rows =
       Some (Inr \<lparr>new_user = True,
                  profile = profile_of (login_row now d (candidate (base_username_of d) k))\<rparr>,
             rows @ [login_row now d (candidate (base_username_of d) k)])"
     "Some (candidate (base_username_of d) k) \<notin> username ` set rows"
     "\<forall>j<k. Some (candidate (base_username_of d) j) \<in> username ` set rows" by blast
  have b: "base_username_of d =
      (if truthy (tok_email d) then takeWhile (\<lambda>c. c \<noteq> CHR ''@'') (the (tok_email d))
       else ''user_'' @ take 8 (tok_uid d))"
    by (simp add: base_username_of_def split_at_0_def split: option.splits)
  show ?thesis
    apply (rule exI [of _ k])
    apply (rule exI [of _ "login_row now d (candidate (base_username_of d) k)"])
    apply (rule exI [of _ "base_username_of d"])
    using k b by (simp add: login_row_fields)
qed

theorem google_login_creates_counterexample:
  "ex_verify ''tok-dup2'' =
     Some \<lparr>tok_uid = ''uid-dup2'', tok_email = Some ''a1@example.com'',
           tok_name = Some ''Al'', tok_picture = None\<rparr> \<and>
   Some ''uid-dup2'' \<notin> uid ` set ex_rows \<and>
   google_login ex_verify 9 ''tok-dup2'' ex_rows = Some (Inl IntegrityError, ex_rows) \<and>
   ex_verify ''tok-empty'' =
     Some \<lparr>tok_uid = ''fedcba9876543210'', tok_email = Some [],
           tok_name = None, tok_picture = None\<rparr> \<and>
   Some ''fedcba9876543210'' \<notin> uid ` set ex_rows \<and>
   map_option (\<lambda>r. map username (snd r)) (google_login ex_verify 9 ''tok-empty'' ex_rows) =
     Some [Some ''alice'', Some ''alice1'', Some ''user_fedcba98'']"
  by code_simp

theorem google_login_creates_witness:
  "ex_verify ''tok-anon'' =
     Some \<lparr>tok_uid = ''0123456789abcdef'', tok_email = None, tok_name = None, tok_picture = None\<rparr> \<and>
   Some ''0123456789abcdef'' \<notin> uid ` set ex_rows \<and>
   (\<exists>u. google_login ex_verify 7 ''tok-anon'' ex_rows =
          Some (Inr \<lparr>new_user = True, profile = profile_of u\<rparr>, ex_rows @ [u]) \<and>
        username u = Some ''user_01234567'' \<and> uid u = Some ''0123456789abcdef'' \<and> email u = None)"
proof -
  let ?d = "\<lparr>tok_uid = ''0123456789abcdef'', tok_email = None, tok_name = None, tok_picture = None\<rparr>"
  have v: "ex_verify ''tok-anon'' = Some ?d" by code_simp
  have u: "Some (tok_uid ?d) \<notin> uid ` set ex_rows" by code_simp
  have e: "tok_email ?d = None \<or> tok_email ?d \<notin> email ` set ex_rows" by simp
  from google_login_creates [where v = ex_verify and t = "''tok-anon''" and d = ?d and rows = ex_rows
      and now = 7, OF v u e]
  obtain k u0 base where r:
    "google_login ex_verify 7 ''tok-anon'' ex_rows =
       Some (Inr \<lparr>new_user = True, profile = profile_of u0\<rparr>, ex_rows @ [u0])"
    "uid u0 = Some (tok_uid ?d)" "email u0 = tok_email ?d" by blast
  have "map_option (\<lambda>r. map username (snd r)) (google_login ex_verify 7 ''tok-anon'' ex_rows) =
     Some [Some ''alice'', Some ''alice1'', Some ''user_01234567'']" by code_simp
  with r(1) have "map username (ex_rows @ [u0]) = [Some ''alice'', Some ''alice1'', Some ''user_01234567'']"
    by simp
  then have "username u0 = Some ''user_01234567''" by simp
  with r v u show ?thesis by auto
qed


section \<open>\<open>register_user\<close>\<close>

text \<open>
  C6, as amended. For a register request whose header yields a token that verifies: when
  a row already has the requested username, the request fails with the error
  "Username already taken" (status 400) and the table is unchanged; when no row has the
  requested username, the requested email or the token's \<open>uid\<close>, exactly one row is
  appended, with \<open>hashed_password\<close> unset, and returned, after which every register
  request for the same username fails with that error, whatever its token. As stated
  ("otherwise creates") the claim fails: a request with a free username and an email that
  a row already has is refused by the unique constraint of the column, and nothing is
  created (the counterexample).
\<close>

theorem register_user_outcomes:
  assumes "a \<noteq> []" and "2 \<le> length (py_split a)" and "v (py_split a ! 1) = Some d"
  shows "(Some (req_username ud) \<in> username ` set rows \<longrightarrow>
            register_user v now ud (Some a) rows =
              (Inl (HTTPException 400 ''Username already taken''), rows)) \<and>
         (Some (req_username ud) \<notin> username ` set rows \<and>
          Some (req_email ud) \<notin> email ` set rows \<and> Some (tok_uid d) \<notin> uid ` set rows \<longrightarrow>
            (\<exists>u. register_user v now ud (Some a) rows = (Inr u, rows @ [u]) \<and>
               hashed_password u = None \<and> username u = Some (req_username ud) \<and>
               email u = Some (req_email ud) \<and> uid u = Some (tok_uid d) \<and>
               display_name u = req_display_name ud \<and>
               (\<forall>v2 now2 ud2 a2 d2. a2 \<noteq> [] \<and> 2 \<le> length (py_split a2) \<and>
                   v2 (py_split a2 ! 1) = Some d2 \<and> req_username ud2 = req_username ud \<longrightarrow>
                   register_user v2 now2 ud2 (Some a2) (rows @ [u]) =
                     (Inl (HTTPException 400 ''Username already taken''), rows @ [u]))))"
proof -
  have taken: "register_user v' now' ud' (Some a') rows' =
      (Inl (HTTPException 400 ''Username already taken''), rows')"
    if "a' \<noteq> []" "2 \<le> length (py_split a')" "v' (py_split a' ! 1) = Some d'"
      "Some (req_username ud') \<in> username ` set rows'" for v' now' ud' a' rows' d'
    using that by (simp add: register_user_def Let_def username_taken_iff)
  let ?u = "register_row now ud (tok_uid d)"
  have created: "register_user v now ud (Some a) rows = (Inr ?u, rows @ [?u])"
    if "Some (req_username ud) \<notin> username ` set rows"
      "Some (req_email ud) \<notin> email ` set rows" "Some (tok_uid d) \<notin> uid ` set rows"
  proof -
    have "\<not> violates_unique rows ?u"
      using that by (simp add: violates_unique_def clash_def register_row_fields)
    then have "add_commit rows ?u = Inr (rows @ [?u])" by (simp add: add_commit_def)
    with assms that(1) show ?thesis
      by (simp add: register_user_def Let_def username_taken_iff)
  qed
  have again: "register_user v2 now2 ud2 (Some a2) (rows @ [?u]) =
      (Inl (HTTPException 400 ''Username already taken''), rows @ [?u])"
    if "a2 \<noteq> []" "2 \<le> length (py_split a2)" "v2 (py_split a2 ! 1) = Some d2"
      "req_username ud2 = req_username ud" for v2 now2 ud2 a2 d2
  proof -
    have "Some (req_username ud2) \<in> username ` set (rows @ [?u])"
      using that(4) by (simp add: register_row_fields)
    with that(1,2,3) show ?thesis by (rule taken)
  qed
  show ?thesis
  proof (intro conjI impI)
    assume "Some (req_username ud) \<in> username ` set rows"
    with assms show "register_user v now ud (Some a) rows =
        (Inl (HTTPException 400 ''Username already taken''), rows)" by (rule taken)
  next
    assume h: "Some (req_username ud) \<notin> username ` set rows \<and>
          Some (req_email ud) \<notin> email ` set rows \<and> Some (tok_uid d) \<notin> uid ` set rows"
    then have c: "register_user v now ud (Some a) rows = (Inr ?u, rows @ [?u])"
      using created by blast
    show "\<exists>u. register_user v now ud (Some a) rows = (Inr u, rows @ [u]) \<and>
               hashed_password u = None \<and> username u = Some (req_username ud) \<and>
               email u = Some (req_email ud) \<and> uid u = Some (tok_uid d) \<and>
               display_name u = req_display_name ud \<and>
               (\<forall>v2 now2 ud2 a2 d2. a2 \<noteq> [] \<and> 2 \<le> length (py_split a2) \<and>
                   v2 (py_split a2 ! 1) = Some d2 \<and> req_username ud2 = req_username ud \<longrightarrow>
                   register_user v2 now2 ud2 (Some a2) (rows @ [u]) =
                     (Inl (HTTPException 400 ''Username already taken''), rows @ [u]))"
      apply (rule exI [of _ ?u])
      using c again by (simp add: register_row_fields)
  qed
qed

theorem register_user_outcomes_counterexample:
  "py_split ''Bearer tok-anon'' = [''Bearer'', ''tok-anon''] \<and>
   ex_verify ''tok-anon'' =
     Some \<lparr>tok_uid = ''0123456789abcdef'', tok_email = None, tok_name = None, tok_picture = None\<rparr> \<and>
   req_username ex_dave = ''dave'' \<and> Some ''dave'' \<notin> username ` set ex_rows \<and>
   register_user ex_verify 9 ex_dave (Some ''Bearer tok-anon'') ex_rows = (Inl IntegrityError, ex_rows)"
  by code_simp

theorem register_user_outcomes_witness:
  "''Bearer tok-anon'' \<noteq> [] \<and> 2 \<le> length (py_split ''Bearer tok-anon'') \<and>
   ex_verify (py_split ''Bearer tok-anon'' ! 1) =
     Some \<lparr>tok_uid = ''0123456789abcdef'', tok_email = None, tok_name = None, tok_picture = None\<rparr> \<and>
   Some (req_username ex_carol) \<notin> username ` set ex_rows \<and>
   Some (req_email ex_carol) \<notin> email ` set ex_rows \<and>
   Some ''0123456789abcdef'' \<notin> uid ` set ex_rows \<and>
   (\<exists>u. register_user ex_verify 8 ex_carol (Some ''Bearer tok-anon'') ex_rows = (Inr u, ex_rows @ [u]) \<and>
      hashed_password u = None \<and> username u = Some ''carol'' \<and>
      register_user ex_verify 9 ex_carol (Some ''Bearer tok-al2'') (ex_rows @ [u]) =
        (Inl (HTTPException 400 ''Username already taken''), ex_rows @ [u]))"
proof -
  let ?d = "\<lparr>tok_uid = ''0123456789abcdef'', tok_email = None, tok_name = None, tok_picture = None\<rparr>"
  let ?d2 = "\<lparr>tok_uid = ''uid-al2'', tok_email = Some ''alice@other.org'',
              tok_name = None, tok_picture = Some ''http://p/al2.png''\<rparr>"
  have h1: "''Bearer tok-anon'' \<noteq> []" by simp
  have h2: "2 \<le> length (py_split ''Bearer tok-anon'')" by code_simp
  have h3: "ex_verify (py_split ''Bearer tok-anon'' ! 1) = Some ?d" by code_simp
  have n1: "Some (req_username ex_carol) \<notin> username ` set ex_rows" by code_simp
  have n2: "Some (req_email ex_carol) \<notin> email ` set ex_rows" by code_simp
  have n3: "Some (tok_uid ?d) \<notin> uid ` set ex_rows" by code_simp
  have g1: "''Bearer tok-al2'' \<noteq> []" by simp
  have g2: "2 \<le> length (py_split ''Bearer tok-al2'')" by code_simp
  have g3: "ex_verify (py_split ''Bearer tok-al2'' ! 1) = Some ?d2" by code_simp
  have c: "req_username ex_carol = ''carol''" by (simp add: ex_carol_def)
  note T = register_user_outcomes [where a = "''Bearer tok-anon''" and v = ex_verify and d = ?d
      and ud = ex_carol and rows = ex_rows and now = 8, OF h1 h2 h3]
  from T [THEN conjunct2, rule_format, OF conjI [OF n1 conjI [OF n2 n3]]]
  obtain u where u: "register_user ex_verify 8 ex_carol (Some ''Bearer tok-anon'') ex_rows = (Inr u, ex_rows @ [u])"
    "hashed_password u = None" "username u = Some (req_username ex_carol)"
    and again: "\<forall>v2 now2 ud2 a2 d2. a2 \<noteq> [] \<and> 2 \<le> length (py_split a2) \<and>
        v2 (py_split a2 ! 1) = Some d2 \<and> req_username ud2 = req_username ex_carol \<longrightarrow>
        register_user v2 now2 ud2 (Some a2) (ex_rows @ [u]) =
          (Inl (HTTPException 400 ''Username already taken''), ex_rows @ [u])"
    by (elim exE conjE)
  from again [rule_format, where ?v2.0 = ex_verify and ?a2.0 = "''Bearer tok-al2''" and ?d2.0 = ?d2
      and ?ud2.0 = ex_carol and ?now2.0 = 9] g1 g2 g3
  have "register_user ex_verify 9 ex_carol (Some ''Bearer tok-al2'') (ex_rows @ [u]) =
        (Inl (HTTPException 400 ''Username already taken''), ex_rows @ [u])" by simp
  with u c have "\<exists>u. register_user ex_verify 8 ex_carol (Some ''Bearer tok-anon'') ex_rows = (Inr u, ex_rows @ [u]) \<and>
      hashed_password u = None \<and> username u = Some ''carol'' \<and>
      register_user ex_verify 9 ex_carol (Some ''Bearer tok-al2'') (ex_rows @ [u]) =
        (Inl (HTTPException 400 ''Username already taken''), ex_rows @ [u])"
    by (intro exI [of _ u]) simp
  with h1 h2 h3 n1 n2 n3 show ?thesis by simp
qed


section \<open>Two concurrent first logins\<close>

text \<open>
  C9, as amended. Two \<open>google_login\<close> requests with the same claims, for a \<open>uid\<close> that no
  row has and an email (if any) that no row has, run with their database statements
  interleaved in any order, from a table whose unique columns are unique. At every
  moment the table has at most one row of that \<open>uid\<close> and its \<open>username\<close>, \<open>email\<close> and
  \<open>uid\<close> columns are unique. Both requests have ended once each of them has made as
  many statements as the table had rows, and four more; when both have ended, the table
  has exactly one row of that \<open>uid\<close>, appended to the table they started from, and every
  request that returns a profile returns the profile of that row. The unique columns stay
  unique under any two requests and any interleaving. As stated ("both calls return
  equivalent identity data") the claim fails: a request that looked the \<open>uid\<close> up before
  the other request's insert goes on to its own insert, which the unique constraint
  refuses, and ends in an uncaught integrity error (the counterexample).
\<close>

theorem concurrent_logins:
  assumes "cols_ok rows" and "v t = Some d" and "Some (tok_uid d) \<notin> uid ` set rows"
    and "tok_email d = None \<or> tok_email d \<notin> email ` set rows"
    and "run2 (v, na, t) (v, nb, t) sch (Start, Start, rows) = (pa, pb, rows')"
  shows "cols_ok rows' \<and> length (rows_of_uid (tok_uid d) rows') \<le> 1 \<and>
         (length rows + 4 \<le> length (filter (\<lambda>x. x) sch) \<and>
          length rows + 4 \<le> length (filter Not sch) \<longrightarrow>
            (\<exists>ra rb. pa = Done ra \<and> pb = Done rb)) \<and>
         (\<forall>ra rb. pa = Done ra \<and> pb = Done rb \<longrightarrow>
            (\<exists>u. rows' = rows @ [u] \<and> rows_of_uid (tok_uid d) rows' = [u] \<and>
               (\<forall>x. ra = Inr x \<longrightarrow> profile x = profile_of u) \<and>
               (\<forall>y. rb = Inr y \<longrightarrow> profile y = profile_of u))) \<and>
         (\<forall>ca cb sch2. cols_ok (snd (snd (run2 ca cb sch2 (Start, Start, rows)))))"
proof -
  have "race_ok rows d (Start, Start, rows)" by (simp add: race_ok_def)
  from run2_race_ok [where v = v and t = t and na = na and nb = nb and sch = sch, OF assms(2,3,4) this]
  have ok: "race_ok rows d (pa, pb, rows')" by (simp add: assms(5))
  then have st: "rows' = rows \<or> (\<exists>u. rows' = rows @ [u] \<and> uid u = Some (tok_uid d))"
    and pa: "pc_ok rows d rows' pa" and pb: "pc_ok rows d rows' pb"
    by (simp_all add: race_ok_def)
  have none: "rows_of_uid (tok_uid d) rows = []" using assms(3) by (rule rows_of_uid_absent)
  have one: "rows_of_uid (tok_uid d) (rows @ [u]) = [u]" if "uid u = Some (tok_uid d)" for u
    using none that by (simp add: rows_of_uid_def)
  have c1: "cols_ok rows'"
    using run2_cols_ok [OF assms(1), of "(v, na, t)" "(v, nb, t)" sch Start Start] assms(5) by simp
  have c2: "length (rows_of_uid (tok_uid d) rows') \<le> 1" using st none one by auto
  have c3: "\<exists>u. rows' = rows @ [u] \<and> rows_of_uid (tok_uid d) rows' = [u] \<and>
               (\<forall>x. ra = Inr x \<longrightarrow> profile x = profile_of u) \<and>
               (\<forall>y. rb = Inr y \<longrightarrow> profile y = profile_of u)"
    if d: "pa = Done ra \<and> pb = Done rb" for ra rb
  proof -
    from pa d have ne: "rows' \<noteq> rows" by simp
    with st obtain u where u: "rows' = rows @ [u]" "uid u = Some (tok_uid d)" by blast
    have "profile x = profile_of u" if "ra = Inr x" for x using pa d that u(1) by simp
    moreover have "profile y = profile_of u" if "rb = Inr y" for y using pb d that u(1) by simp
    ultimately show ?thesis using u one by blast
  qed
  have c4: "cols_ok (snd (snd (run2 ca cb sch2 (Start, Start, rows))))" for ca cb sch2
    using assms(1) by (rule run2_cols_ok)
  have c5: "\<exists>ra rb. pa = Done ra \<and> pb = Done rb"
    if "length rows + 4 \<le> length (filter (\<lambda>x. x) sch) \<and> length rows + 4 \<le> length (filter Not sch)"
    using run2_both_done [where v = v and t = t and na = na and nb = nb and sch = sch,
        OF assms(2,3,4,5)] that by blast
  from c1 c2 c3 c4 c5 show ?thesis by blast
qed

theorem concurrent_logins_counterexample:
  "ex_verify ''tok-al2'' =
     Some \<lparr>tok_uid = ''uid-al2'', tok_email = Some ''alice@other.org'',
           tok_name = None, tok_picture = Some ''http://p/al2.png''\<rparr> \<and>
   Some ''uid-al2'' \<notin> uid ` set ex_rows \<and>
   fst (run2 (ex_verify, 7, ''tok-al2'') (ex_verify, 8, ''tok-al2'') ex_schedule (Start, Start, ex_rows)) =
     Done (Inr \<lparr>new_user = True,
       profile = \<lparr>p_uid = Some ''uid-al2'', p_username = Some ''alice2'',
                  p_email = Some ''alice@other.org'', p_created_at = 7, p_display_name = None,
                  p_photo_url = Some ''http://p/al2.png'', p_state = None, p_language = None\<rparr>\<rparr>) \<and>
   fst (snd (run2 (ex_verify, 7, ''tok-al2'') (ex_verify, 8, ''tok-al2'') ex_schedule
     (Start, Start, ex_rows))) = Done (Inl IntegrityError)"
  by code_simp

theorem concurrent_logins_witness:
  "cols_ok ex_rows \<and>
   ex_verify ''tok-al2'' =
     Some \<lparr>tok_uid = ''uid-al2'', tok_email = Some ''alice@other.org'',
           tok_name = None, tok_picture = Some ''http://p/al2.png''\<rparr> \<and>
   Some ''uid-al2'' \<notin> uid ` set ex_rows \<and> Some ''alice@other.org'' \<notin> email ` set ex_rows \<and>
   length ex_rows + 4 \<le> length (filter (\<lambda>x. x) ex_schedule) \<and>
   length ex_rows + 4 \<le> length (filter Not ex_schedule) \<and>
   (\<exists>ra rb.
      fst (run2 (ex_verify, 7, ''tok-al2'') (ex_verify, 8, ''tok-al2'') ex_schedule
        (Start, Start, ex_rows)) = Done ra \<and>
      fst (snd (run2 (ex_verify, 7, ''tok-al2'') (ex_verify, 8, ''tok-al2'') ex_schedule
        (Start, Start, ex_rows))) = Done rb) \<and>
   fst (snd (run2 (ex_verify, 7, ''tok-al2'') (ex_verify, 8, ''tok-al2'') ex_schedule
     (Start, Start, ex_rows))) = Done (Inl IntegrityError) \<and>
   cols_ok (snd (snd (run2 (ex_verify, 7, ''tok-al2'') (ex_verify, 8, ''tok-al2'') ex_schedule
     (Start, Start, ex_rows)))) \<and>
   length (rows_of_uid ''uid-al2'' (snd (snd (run2 (ex_verify, 7, ''tok-al2'')
     (ex_verify, 8, ''tok-al2'') ex_schedule (Start, Start, ex_rows))))) = 1"
proof -
  let ?d = "\<lparr>tok_uid = ''uid-al2'', tok_email = Some ''alice@other.org'',
           tok_name = None, tok_picture = Some ''http://p/al2.png''\<rparr>"
  let ?R = "run2 (ex_verify, 7, ''tok-al2'') (ex_verify, 8, ''tok-al2'') ex_schedule
     (Start, Start, ex_rows)"
  have c: "cols_ok ex_rows" by code_simp
  have v: "ex_verify ''tok-al2'' = Some ?d" by code_simp
  have u: "Some (tok_uid ?d) \<notin> uid ` set ex_rows" by code_simp
  have e0: "Some ''alice@other.org'' \<notin> email ` set ex_rows" by code_simp
  then have e: "tok_email ?d = None \<or> tok_email ?d \<notin> email ` set ex_rows" by simp
  have la: "length ex_rows + 4 \<le> length (filter (\<lambda>x. x) ex_schedule)" by code_simp
  have lb: "length ex_rows + 4 \<le> length (filter Not ex_schedule)" by code_simp
  have b: "fst (snd ?R) = Done (Inl IntegrityError)" by code_simp
  have r: "?R = (fst ?R, fst (snd ?R), snd (snd ?R))" by simp
  note T = concurrent_logins [where v = ex_verify and t = "''tok-al2''" and d = ?d and rows = ex_rows
      and na = 7 and nb = 8 and sch = ex_schedule, OF c v u e r]
  from T have c': "cols_ok (snd (snd ?R))" by (rule conjunct1)
  from T have "length ex_rows + 4 \<le> length (filter (\<lambda>x. x) ex_schedule) \<and>
      length ex_rows + 4 \<le> length (filter Not ex_schedule) \<longrightarrow>
      (\<exists>ra rb. fst ?R = Done ra \<and> fst (snd ?R) = Done rb)"
    by (elim conjE)
  from this [rule_format, OF conjI [OF la lb]]
  obtain ra rb where ended: "fst ?R = Done ra \<and> fst (snd ?R) = Done rb" by (elim exE)
  from T have "\<forall>ra rb. fst ?R = Done ra \<and> fst (snd ?R) = Done rb \<longrightarrow>
      (\<exists>u. snd (snd ?R) = ex_rows @ [u] \<and> rows_of_uid (tok_uid ?d) (snd (snd ?R)) = [u] \<and>
         (\<forall>x. ra = Inr x \<longrightarrow> profile x = profile_of u) \<and>
         (\<forall>y. rb = Inr y \<longrightarrow> profile y = profile_of u))"
    by (elim conjE)
  from this [rule_format, OF ended]
  obtain u0 where "rows_of_uid (tok_uid ?d) (snd (snd ?R)) = [u0]" by (elim exE conjE)
  then have l: "length (rows_of_uid ''uid-al2'' (snd (snd ?R))) = 1" by simp
  have "\<exists>ra rb. fst ?R = Done ra \<and> fst (snd ?R) = Done rb" using ended by blast
  with c v u e0 la lb b c' l show ?thesis by simp
qed

end
